theory Spec2Isabelle
  imports Complex_Main
begin

section \<open>Conventions of the embedding\<close>

text \<open>
  The Go packages \<^verbatim>\<open>models\<close> and \<^verbatim>\<open>analyzer\<close> of the log analyzer are embedded as
  HOL functions over records.

  \<^item> A \<^verbatim>\<open>time.Time\<close> is an \<open>int\<close>: nanoseconds since a fixed origin. A
    \<^verbatim>\<open>time.Duration\<close> is an \<open>int\<close> of nanoseconds, \<^verbatim>\<open>time.Second\<close> is \<open>Second\<close>.
  \<^item> Every call of \<^verbatim>\<open>time.Now()\<close> is an input of the model: a function takes one
    clock reading for each place where its source reads the clock.
  \<^item> Go's \<^verbatim>\<open>int\<close> is \<open>int\<close>; the counters of the program stay far below \<open>2^63\<close>.
  \<^item> A \<^verbatim>\<open>float64\<close> is a \<open>real\<close>: the rounding of IEEE arithmetic is not modelled.
  \<^item> A Go map is a partial function; reading an absent key of a \<^verbatim>\<open>map[string]int\<close>
    yields \<open>0\<close> (\<open>geti\<close>), and a \<^verbatim>\<open>*list.List\<close> is the list of its values, front
    first.
  \<^item> The locks of the window and of the pattern tracker, the debug logger and the
    back pointer \<^verbatim>\<open>SlidingWindow.analyzer\<close> have no effect on the values computed and
    are left out. The controller's mutex is kept as a trace of events (see
    \<open>mux_event\<close>), because one property is about it.
\<close>

type_synonym time = int

definition Second :: int where
  "Second = 1000000000"

definition geti :: "(string \<rightharpoonup> int) \<Rightarrow> string \<Rightarrow> int" where
  "geti m k = (case m k of None \<Rightarrow> 0 | Some v \<Rightarrow> v)"

definition getl :: "(string \<rightharpoonup> 'a list) \<Rightarrow> string \<Rightarrow> 'a list" where
  "getl m k = (case m k of None \<Rightarrow> [] | Some l \<Rightarrow> l)"

section \<open>models/models.go\<close>

record LogEntry =
  Timestamp :: time
  Level :: string
  IP :: string
  Message :: string
  ErrorType :: string
  IsValid :: bool
  OriginalLog :: string

section \<open>analyzer/window.go\<close>

record SlidingWindow =
  entries :: "LogEntry list"
  entriesByType :: "string \<rightharpoonup> LogEntry list"
  errorsByType :: "string \<rightharpoonup> LogEntry list"
  duration :: int
  totalCount :: int
  levelCounts :: "string \<rightharpoonup> int"
  errorCounts :: "string \<rightharpoonup> int"

definition NewSlidingWindow :: "int \<Rightarrow> SlidingWindow" where
  "NewSlidingWindow durationSec =
     \<lparr>entries = [], entriesByType = Map.empty, errorsByType = Map.empty,
      duration = durationSec * Second, totalCount = 0,
      levelCounts = Map.empty, errorCounts = Map.empty\<rparr>"

text \<open>
  The inner loops of \<^verbatim>\<open>removeExpiredEntries\<close>: walk a secondary list from the front
  and remove the first element whose timestamp equals the one given.
\<close>

fun removeFirstAt :: "time \<Rightarrow> LogEntry list \<Rightarrow> LogEntry list" where
  "removeFirstAt ts [] = []"
| "removeFirstAt ts (x # xs) =
     (if Timestamp x = ts then xs else x # removeFirstAt ts xs)"

definition removeFromIndex ::
  "string \<Rightarrow> time \<Rightarrow> (string \<rightharpoonup> LogEntry list) \<Rightarrow> (string \<rightharpoonup> LogEntry list)" where
  "removeFromIndex k ts m =
     (case m k of None \<Rightarrow> m | Some l \<Rightarrow> m(k \<mapsto> removeFirstAt ts l))"

text \<open>
  The body of the outer loop for an expired entry \<open>e\<close>, once it is unlinked from the
  primary list: the counters and the two secondary lists.
\<close>

definition expireEntry :: "LogEntry \<Rightarrow> SlidingWindow \<Rightarrow> SlidingWindow" where
  "expireEntry e w =
     (let w1 = w\<lparr>totalCount := totalCount w - 1,
                  levelCounts := (levelCounts w)(Level e \<mapsto> geti (levelCounts w) (Level e) - 1),
                  entriesByType := removeFromIndex (Level e) (Timestamp e) (entriesByType w)\<rparr>
      in if Level e = ''ERROR'' \<and> ErrorType e \<noteq> ''''
         then w1\<lparr>errorCounts := (errorCounts w1)(ErrorType e \<mapsto> geti (errorCounts w1) (ErrorType e) - 1),
                 errorsByType := removeFromIndex (ErrorType e) (Timestamp e) (errorsByType w1)\<rparr>
         else w1)"

function removeExpiredEntries :: "time \<Rightarrow> SlidingWindow \<Rightarrow> SlidingWindow" where
  "removeExpiredEntries cutoff w =
     (case entries w of
        [] \<Rightarrow> w
      | e # rest \<Rightarrow>
          if Timestamp e < cutoff
          then removeExpiredEntries cutoff (expireEntry e (w\<lparr>entries := rest\<rparr>))
          else w)"
  by pat_completeness auto
termination
  by (relation "measure (\<lambda>(cutoff, w). length (entries w))")
     (auto simp: expireEntry_def Let_def)

declare removeExpiredEntries.simps [simp del]

definition incr :: "string \<Rightarrow> (string \<rightharpoonup> int) \<Rightarrow> (string \<rightharpoonup> int)" where
  "incr k m = m(k \<mapsto> geti m k + 1)"

definition pushBack :: "string \<Rightarrow> LogEntry \<Rightarrow> (string \<rightharpoonup> LogEntry list) \<Rightarrow> (string \<rightharpoonup> LogEntry list)" where
  "pushBack k e m = m(k \<mapsto> getl m k @ [e])"

definition Add :: "time \<Rightarrow> LogEntry \<Rightarrow> SlidingWindow \<Rightarrow> SlidingWindow" where
  "Add now entry w =
     (let cutoff = now - duration w;
          w1 = removeExpiredEntries cutoff w;
          w2 = w1\<lparr>entries := entries w1 @ [entry],
                  totalCount := totalCount w1 + 1,
                  levelCounts := incr (Level entry) (levelCounts w1),
                  entriesByType := pushBack (Level entry) entry (entriesByType w1)\<rparr>
      in if Level entry = ''ERROR'' \<and> ErrorType entry \<noteq> ''''
         then w2\<lparr>errorCounts := incr (ErrorType entry) (errorCounts w2),
                 errorsByType := pushBack (ErrorType entry) entry (errorsByType w2)\<rparr>
         else w2)"

definition SetDuration :: "time \<Rightarrow> int \<Rightarrow> SlidingWindow \<Rightarrow> SlidingWindow" where
  "SetDuration now durationSec w =
     (let oldDuration = duration w;
          w1 = w\<lparr>duration := durationSec * Second\<rparr>
      in if duration w1 < oldDuration
         then removeExpiredEntries (now - duration w1) w1
         else w1)"

definition GetStats :: "SlidingWindow \<Rightarrow> int \<times> (string \<rightharpoonup> int) \<times> (string \<rightharpoonup> int)" where
  "GetStats w = (totalCount w, levelCounts w, errorCounts w)"

text \<open>
  The scan of \<^verbatim>\<open>GetErrorRate\<close>, from the back of the list (the argument is the list
  reversed): it stops at the first timestamp before the cutoff.
\<close>

fun rateScan :: "time \<Rightarrow> LogEntry list \<Rightarrow> int \<Rightarrow> int" where
  "rateScan cutoff [] count = count"
| "rateScan cutoff (e # es) count =
     (if Timestamp e < cutoff then count else rateScan cutoff es (count + 1))"

definition GetErrorRate :: "time \<Rightarrow> string \<Rightarrow> int \<Rightarrow> SlidingWindow \<Rightarrow> real" where
  "GetErrorRate now errorType seconds w =
     (case errorsByType w errorType of
        Some l \<Rightarrow>
          (let cutoff = now - seconds * Second;
               count = rateScan cutoff (rev l) 0
           in real_of_int count / real_of_int seconds)
      | None \<Rightarrow> 0)"

text \<open>
  The scan of \<^verbatim>\<open>GetErrorChange\<close>, again from the back: an entry after the recent
  cutoff counts as recent, else one after the previous cutoff counts as previous, and
  anything else ends the scan.
\<close>

fun changeScan :: "time \<Rightarrow> time \<Rightarrow> LogEntry list \<Rightarrow> int \<times> int \<Rightarrow> int \<times> int" where
  "changeScan recentCutoff prevCutoff [] (recentCount, prevCount) = (recentCount, prevCount)"
| "changeScan recentCutoff prevCutoff (e # es) (recentCount, prevCount) =
     (if Timestamp e > recentCutoff
      then changeScan recentCutoff prevCutoff es (recentCount + 1, prevCount)
      else if Timestamp e > prevCutoff
      then changeScan recentCutoff prevCutoff es (recentCount, prevCount + 1)
      else (recentCount, prevCount))"

definition GetErrorChange :: "time \<Rightarrow> string \<Rightarrow> int \<Rightarrow> int \<Rightarrow> SlidingWindow \<Rightarrow> real" where
  "GetErrorChange now errorType recentSec prevSec w =
     (case errorsByType w errorType of
        Some l \<Rightarrow>
          (let recentCutoff = now - recentSec * Second;
               prevCutoff = recentCutoff - prevSec * Second;
               (recentCount, prevCount) = changeScan recentCutoff prevCutoff (rev l) (0, 0)
           in if prevCount = 0
              then (if recentCount > 0 then 100 else 0)
              else 100 * real_of_int (recentCount - prevCount) / real_of_int prevCount)
      | None \<Rightarrow> 0)"

section \<open>analyzer/patterns.go\<close>

record ErrorPattern =
  Count :: int
  Weight :: real
  LastUpdated :: time
  RateHistory :: "real list"

record EmergingPatternEvent =
  Pattern :: string
  StartTime :: time
  EndTime :: time
  PeakChange :: real
  Description :: string

text \<open>
  The tracker's pointer to the window is not a field of the model: the functions that
  follow it (\<open>UpdatePattern\<close>, \<open>GetEmergingPatterns\<close>) take the window as an argument.
  \<open>historySize\<close> only serves as a length and is a \<open>nat\<close>.
\<close>

record PatternTracker =
  patterns :: "string \<rightharpoonup> ErrorPattern"
  historySize :: nat
  patternHistory :: "EmergingPatternEvent list"

definition NewPatternTracker :: PatternTracker where
  "NewPatternTracker = \<lparr>patterns = Map.empty, historySize = 5, patternHistory = []\<rparr>"

text \<open>
  Go's builtin \<^verbatim>\<open>copy(dst, src)\<close>, as the new contents of \<open>dst\<close>: the first
  \<open>min (len dst) (len src)\<close> elements come from \<open>src\<close>. Where the two slices overlap,
  as in \<open>shiftHistory\<close>, the elements copied are those \<open>src\<close> held before the call.
\<close>

definition copySlice :: "'a list \<Rightarrow> 'a list \<Rightarrow> 'a list" where
  "copySlice dst src =
     take (min (length dst) (length src)) src @ drop (min (length dst) (length src)) dst"

text \<open>
  \<^verbatim>\<open>copy(h[1:], h[:historySize-1])\<close> as the new contents of \<open>h\<close>. The slice
  expressions panic unless \<open>1 \<le> len h\<close> and \<open>historySize - 1 \<le> cap h\<close>; every history
  the tracker builds has length \<open>historySize = 5\<close> (lemma \<open>reachable_history_length\<close>),
  so the panic is not a branch of the model.
\<close>

definition shiftHistory :: "nat \<Rightarrow> real list \<Rightarrow> real list" where
  "shiftHistory hs h = take 1 h @ copySlice (drop 1 h) (take (hs - 1) h)"

text \<open>
  \<open>UpdatePattern\<close> reads the clock at \<open>tNew\<close> when it creates the pattern and at
  \<open>tNow\<close> after counting; \<open>tRate\<close> is the reading of \<open>GetErrorRate\<close>.
\<close>

definition UpdatePattern ::
  "time \<Rightarrow> time \<Rightarrow> time \<Rightarrow> LogEntry \<Rightarrow> SlidingWindow \<Rightarrow> PatternTracker \<Rightarrow> PatternTracker" where
  "UpdatePattern tNew tNow tRate entry win pt =
     (if Level entry \<noteq> ''ERROR'' \<or> ErrorType entry = '''' then pt
      else
        let pattern0 =
              (case patterns pt (ErrorType entry) of
                 Some p \<Rightarrow> p
               | None \<Rightarrow> \<lparr>Count = 0, Weight = 0, LastUpdated = tNew,
                          RateHistory = replicate (historySize pt) 0\<rparr>);
            pattern1 = pattern0\<lparr>Count := Count pattern0 + 1\<rparr>;
            pattern2 =
              (if tNow - LastUpdated pattern1 > 10 * Second
               then
                 let h = (shiftHistory (historySize pt) (RateHistory pattern1))
                           [0 := GetErrorRate tRate (ErrorType entry) 10 win];
                     p = pattern1\<lparr>RateHistory := h, LastUpdated := tNow\<rparr>
                 in if length h \<ge> 2 \<and> h ! 0 > 0 \<and> h ! 1 > 0 \<and> h ! 0 \<ge> 4 * h ! 1
                    then p\<lparr>Weight := Weight p * 3\<rparr>
                    else p
               else pattern1)
        in pt\<lparr>patterns := (patterns pt)(ErrorType entry \<mapsto> pattern2)\<rparr>)"

text \<open>
  \<open>StoreEmergingPattern\<close> reads the clock twice: \<open>tStart\<close> for \<open>StartTime\<close>, then
  \<open>tEnd\<close> for \<open>EndTime\<close>.
\<close>

definition StoreEmergingPattern ::
  "time \<Rightarrow> time \<Rightarrow> string \<Rightarrow> real \<Rightarrow> PatternTracker \<Rightarrow> PatternTracker" where
  "StoreEmergingPattern tStart tEnd pattern change pt =
     (let event = \<lparr>Pattern = pattern, StartTime = tStart, EndTime = tEnd + 60 * Second,
                   PeakChange = change,
                   Description = ''Spike in '' @ pattern @ '' errors''\<rparr>;
          hist = patternHistory pt @ [event]
      in pt\<lparr>patternHistory := (if length hist > 5 then drop 1 hist else hist)\<rparr>)"

definition GetPatternHistory :: "PatternTracker \<Rightarrow> EmergingPatternEvent list" where
  "GetPatternHistory pt = patternHistory pt"

text \<open>
  The first loop of \<open>GetEmergingPatterns\<close>. \<open>range pt.patterns\<close> visits the keys in
  an order the runtime chooses: the order is the list argument. \<open>tChange t\<close> is the
  clock reading of the call of \<open>GetErrorChange\<close> for the key \<open>t\<close>.
\<close>

fun collectSignificant ::
  "(string \<Rightarrow> time) \<Rightarrow> SlidingWindow \<Rightarrow> string list \<Rightarrow>
   (string \<rightharpoonup> real) \<times> string list \<times> real list \<Rightarrow>
   (string \<rightharpoonup> real) \<times> string list \<times> real list" where
  "collectSignificant tChange win [] acc = acc"
| "collectSignificant tChange win (errType # rest) (result, significantPatterns, significantChanges) =
     (let change = GetErrorChange (tChange errType) errType 15 15 win
      in if change > 100
         then collectSignificant tChange win rest
                (result(errType \<mapsto> change), significantPatterns @ [errType],
                 significantChanges @ [change])
         else collectSignificant tChange win rest
                (result, significantPatterns, significantChanges))"

text \<open>
  The second loop: one \<open>StoreEmergingPattern\<close> for each significant pattern, with the
  clock readings \<open>tStart\<close> and \<open>tEnd\<close> of that call.
\<close>

fun storeSignificant ::
  "(string \<Rightarrow> time) \<Rightarrow> (string \<Rightarrow> time) \<Rightarrow> (string \<times> real) list \<Rightarrow>
   PatternTracker \<Rightarrow> PatternTracker" where
  "storeSignificant tStart tEnd [] pt = pt"
| "storeSignificant tStart tEnd ((pattern, change) # rest) pt =
     storeSignificant tStart tEnd rest
       (StoreEmergingPattern (tStart pattern) (tEnd pattern) pattern change pt)"

definition GetEmergingPatterns ::
  "string list \<Rightarrow> (string \<Rightarrow> time) \<Rightarrow> (string \<Rightarrow> time) \<Rightarrow> (string \<Rightarrow> time) \<Rightarrow>
   SlidingWindow \<Rightarrow> PatternTracker \<Rightarrow> (string \<rightharpoonup> real) \<times> PatternTracker" where
  "GetEmergingPatterns order tChange tStart tEnd win pt =
     (let (result, significantPatterns, significantChanges) =
            collectSignificant tChange win order (Map.empty, [], [])
      in (result,
          storeSignificant tStart tEnd (zip significantPatterns significantChanges) pt))"

section \<open>models/models.go: statistics and alerts\<close>

text \<open>
  The message of an alert is built with \<^verbatim>\<open>fmt.Sprintf\<close>; the model keeps the format
  chosen and its arguments instead of the printed string.
\<close>

datatype alert_text =
  BurstDetected int int
| WindowAdjusted int
| HighErrorRate real

record Alert =
  AlertTimestamp :: time
  AlertMessage :: alert_text

record LogStats =
  EntriesProcessed :: int
  CurrentRate :: real
  PeakRate :: real
  WindowSize :: int
  LevelCounts :: "string \<rightharpoonup> int"
  ErrorCounts :: "string \<rightharpoonup> int"
  ErrorRates :: "string \<rightharpoonup> real"
  EmergingPatterns :: "string \<rightharpoonup> real"
  SkippedEntries :: int
  StatsLastUpdated :: time
  EmergingPatternHistory :: "EmergingPatternEvent list"
  PreviousWindowSize :: int

definition NewLogStats :: "time \<Rightarrow> LogStats" where
  "NewLogStats tNow =
     \<lparr>EntriesProcessed = 0, CurrentRate = 0, PeakRate = 0, WindowSize = 60,
      LevelCounts = Map.empty, ErrorCounts = Map.empty, ErrorRates = Map.empty,
      EmergingPatterns = Map.empty, SkippedEntries = 0, StatsLastUpdated = tNow,
      EmergingPatternHistory = [], PreviousWindowSize = 60\<rparr>"

section \<open>analyzer/analyzer.go\<close>

record RateBucket =
  BucketCount :: int
  BucketTimestamp :: time

text \<open>
  The trace of the controller's mutex: every \<^verbatim>\<open>a.mux.Lock()\<close> and
  \<^verbatim>\<open>a.mux.Unlock()\<close> the code executes, and every \<^verbatim>\<open>a.stats.EntriesProcessed++\<close>,
  in program order.
\<close>

datatype mux_event = MuxLock | MuxUnlock | IncEntriesProcessed

text \<open>
  \<open>alertChan\<close> holds the alerts sent on the channel, oldest first: a send is an
  append, the display that drains the channel is not part of the model. The channels
  \<^verbatim>\<open>logChan\<close>, \<^verbatim>\<open>statsChan\<close> and \<^verbatim>\<open>stopChan\<close> are the inputs and outputs of the
  functions below.
\<close>

record Analyzer =
  window :: SlidingWindow
  patternTracker :: PatternTracker
  stats :: LogStats
  rateBuckets :: "RateBucket list"
  skippedEntries :: int
  bufferResized :: bool
  bufferSize :: int
  buggyConcurrency :: bool
  alertChan :: "Alert list"
  muxTrace :: "mux_event list"

definition NewAnalyzer :: "time \<Rightarrow> int \<Rightarrow> Analyzer" where
  "NewAnalyzer tNow initialBufferSize =
     \<lparr>window = NewSlidingWindow 60, patternTracker = NewPatternTracker,
      stats = NewLogStats tNow, rateBuckets = [], skippedEntries = 0,
      bufferResized = False, bufferSize = initialBufferSize,
      buggyConcurrency = True, alertChan = [], muxTrace = []\<rparr>"

text \<open>The conversion \<^verbatim>\<open>int(f)\<close> of a float: truncation toward zero.\<close>

definition goInt :: "real \<Rightarrow> int" where
  "goInt r = (if r \<ge> 0 then \<lfloor>r\<rfloor> else \<lceil>r\<rceil>)"

text \<open>\<^verbatim>\<open>t.Truncate(d)\<close>: \<open>t\<close> rounded down to a multiple of \<open>d\<close>; \<open>t\<close> itself if \<open>d \<le> 0\<close>.\<close>

definition Truncate :: "time \<Rightarrow> int \<Rightarrow> time" where
  "Truncate t d = (if d \<le> 0 then t else t - t mod d)"

definition minInt :: "int \<Rightarrow> int \<Rightarrow> int" where
  "minInt a b = (if a < b then a else b)"

definition maxInt :: "int \<Rightarrow> int \<Rightarrow> int" where
  "maxInt a b = (if a > b then a else b)"

definition updateRateBucket :: "time \<Rightarrow> time \<Rightarrow> int \<Rightarrow> Analyzer \<Rightarrow> Analyzer" where
  "updateRateBucket tNow timestamp count a =
     (let buckets = rateBuckets a @ [\<lparr>BucketCount = count, BucketTimestamp = timestamp\<rparr>];
          cutoff = tNow - 120 * Second;
          newBuckets = filter (\<lambda>bucket. BucketTimestamp bucket > cutoff) buckets
      in a\<lparr>rateBuckets := newBuckets, muxTrace := muxTrace a @ [MuxLock, MuxUnlock]\<rparr>)"

fun bucketScan :: "time \<Rightarrow> RateBucket list \<Rightarrow> int \<times> int \<Rightarrow> int \<times> int" where
  "bucketScan cutoff [] (totalCount', relevantBuckets) = (totalCount', relevantBuckets)"
| "bucketScan cutoff (bucket # rest) (totalCount', relevantBuckets) =
     (if BucketTimestamp bucket > cutoff
      then bucketScan cutoff rest (totalCount' + BucketCount bucket, relevantBuckets + 1)
      else bucketScan cutoff rest (totalCount', relevantBuckets))"

definition calculateRate :: "time \<Rightarrow> int \<Rightarrow> Analyzer \<Rightarrow> real" where
  "calculateRate tNow seconds a =
     (let cutoff = tNow - seconds * Second;
          (totalCount', relevantBuckets) = bucketScan cutoff (rateBuckets a) (0, 0)
      in if relevantBuckets = 0 then 0
         else real_of_int totalCount' / real_of_int relevantBuckets)"

text \<open>
  One iteration of the loop of \<open>processLogs\<close> that receives \<open>entry\<close> from \<^verbatim>\<open>logChan\<close>.
  The loop's local variables travel with the analyzer. The clock readings of the
  iteration, in program order: \<open>atRecv\<close> (the loop's \<open>now\<close>), \<open>atBucket\<close>
  (\<open>updateRateBucket\<close>), \<open>atAdd\<close> (\<open>window.Add\<close>), \<open>atNew\<close>, \<open>atUpd\<close> and \<open>atRate\<close>
  (\<open>UpdatePattern\<close> and the \<open>GetErrorRate\<close> it calls).
\<close>

record IngestState =
  analyzer :: Analyzer
  secondBucket :: time
  secondCount :: int

record StepClock =
  atRecv :: time
  atBucket :: time
  atAdd :: time
  atNew :: time
  atUpd :: time
  atRate :: time

definition startIngest :: "time \<Rightarrow> Analyzer \<Rightarrow> IngestState" where
  "startIngest tNow a = \<lparr>analyzer = a, secondBucket = Truncate tNow Second, secondCount = 0\<rparr>"

definition processEntry :: "StepClock \<Rightarrow> LogEntry \<Rightarrow> IngestState \<Rightarrow> IngestState" where
  "processEntry c entry s =
     (let now = atRecv c;
          s1 = (if Truncate now Second \<noteq> secondBucket s
                then s\<lparr>analyzer := updateRateBucket (atBucket c) (secondBucket s) (secondCount s) (analyzer s),
                       secondBucket := Truncate now Second,
                       secondCount := 0\<rparr>
                else s);
          s2 = s1\<lparr>secondCount := secondCount s1 + 1\<rparr>;
          a = analyzer s2
      in if \<not> IsValid entry
         then s2\<lparr>analyzer := a\<lparr>skippedEntries := skippedEntries a + 1,
                                 muxTrace := muxTrace a @ [MuxLock, MuxUnlock]\<rparr>\<rparr>
         else
           let win = Add (atAdd c) entry (window a);
               a1 = a\<lparr>window := win,
                       patternTracker := UpdatePattern (atNew c) (atUpd c) (atRate c) entry win (patternTracker a)\<rparr>;
               a2 = (if Level entry = ''ERROR'' \<and> buggyConcurrency a1
                     then a1\<lparr>stats := (stats a1)\<lparr>EntriesProcessed := EntriesProcessed (stats a1) + 1\<rparr>,
                             muxTrace := muxTrace a1 @ [IncEntriesProcessed]\<rparr>
                     else a1\<lparr>stats := (stats a1)\<lparr>EntriesProcessed := EntriesProcessed (stats a1) + 1\<rparr>,
                             muxTrace := muxTrace a1 @ [MuxLock, IncEntriesProcessed, MuxUnlock]\<rparr>);
               a3 = (if secondCount s2 > goInt (real_of_int (bufferSize a2) * 0.8)
                     then
                       let newSize = goInt (real_of_int (bufferSize a2) * 1.5)
                       in a2\<lparr>bufferSize := newSize, bufferResized := True,
                              muxTrace := muxTrace a2 @ [MuxLock, MuxUnlock],
                              alertChan := alertChan a2 @
                                [\<lparr>AlertTimestamp = now,
                                  AlertMessage = BurstDetected (secondCount s2) newSize\<rparr>]\<rparr>
                     else a2)
           in s2\<lparr>analyzer := a3\<rparr>)"

text \<open>The loop of \<open>processLogs\<close> over the entries received, each with its clock readings.\<close>

fun processLogs :: "(StepClock \<times> LogEntry) list \<Rightarrow> IngestState \<Rightarrow> IngestState" where
  "processLogs [] s = s"
| "processLogs ((c, entry) # rest) s = processLogs rest (processEntry c entry s)"

text \<open>
  \<open>cloneStats\<close> starts from \<open>NewLogStats\<close> (which reads the clock for
  \<open>LastUpdated\<close>, then overwritten) and copies field by field.
\<close>

definition cloneStats :: "time \<Rightarrow> Analyzer \<Rightarrow> LogStats" where
  "cloneStats tNow a =
     (let clone = NewLogStats tNow
      in clone\<lparr>EntriesProcessed := EntriesProcessed (stats a),
               CurrentRate := CurrentRate (stats a),
               PeakRate := PeakRate (stats a),
               WindowSize := WindowSize (stats a),
               StatsLastUpdated := StatsLastUpdated (stats a),
               SkippedEntries := SkippedEntries (stats a),
               LevelCounts := LevelCounts clone ++ LevelCounts (stats a),
               ErrorCounts := ErrorCounts clone ++ ErrorCounts (stats a),
               ErrorRates := ErrorRates clone ++ ErrorRates (stats a),
               EmergingPatterns := EmergingPatterns clone ++ EmergingPatterns (stats a),
               EmergingPatternHistory := EmergingPatternHistory (stats a)\<rparr>)"

text \<open>
  The clock readings and the map iteration orders of one call of \<open>generateStats\<close>, in
  program order: \<open>atCalc\<close> (\<open>calculateRate\<close>), \<open>atSurge\<close> (the surge alert), \<open>atSetDur\<close>
  (\<open>SetDuration\<close>), \<open>atLast\<close> (\<open>LastUpdated\<close>), \<open>atErrRate t\<close> (\<open>GetErrorRate\<close> for the
  key \<open>t\<close>), \<open>atChange\<close>, \<open>atStart\<close>, \<open>atEnd\<close> and \<open>patternOrder\<close>
  (\<open>GetEmergingPatterns\<close>), \<open>rateOrder\<close> (the order of \<open>range a.stats.ErrorRates\<close>),
  \<open>atHigh\<close> (the error-rate alert), \<open>atClone\<close> (\<open>cloneStats\<close>).
\<close>

record TickClock =
  atCalc :: time
  atSurge :: time
  atSetDur :: time
  atLast :: time
  atErrRate :: "string \<Rightarrow> time"
  patternOrder :: "string list"
  atChange :: "string \<Rightarrow> time"
  atStart :: "string \<Rightarrow> time"
  atEnd :: "string \<Rightarrow> time"
  rateOrder :: "string list"
  atHigh :: time
  atClone :: time

definition getr :: "(string \<rightharpoonup> real) \<Rightarrow> string \<Rightarrow> real" where
  "getr m k = (case m k of None \<Rightarrow> 0 | Some v \<Rightarrow> v)"

text \<open>
  The first part of \<open>generateStats\<close>: current rate, peak rate, and the adjustment of the
  window size.
\<close>

definition adjustWindow :: "TickClock \<Rightarrow> Analyzer \<Rightarrow> real \<times> Analyzer" where
  "adjustWindow c a =
     (let currentRate = calculateRate (atCalc c) 10 a;
          a1 = (if currentRate > PeakRate (stats a)
                then a\<lparr>stats := (stats a)\<lparr>PeakRate := currentRate\<rparr>\<rparr>
                else a);
          newWindowSize0 = WindowSize (stats a1);
          (newWindowSize, a2) =
            (if currentRate > 2500 \<and> WindowSize (stats a1) > 30
             then (maxInt 30 (WindowSize (stats a1) - 10),
                   a1\<lparr>alertChan := alertChan a1 @
                        [\<lparr>AlertTimestamp = atSurge c,
                          AlertMessage = WindowAdjusted (maxInt 30 (WindowSize (stats a1) - 10))\<rparr>]\<rparr>)
             else if currentRate < 600 \<and> WindowSize (stats a1) < 120
             then (minInt 120 (WindowSize (stats a1) + 10), a1)
             else (newWindowSize0, a1));
          a3 = (if newWindowSize \<noteq> WindowSize (stats a2)
                then a2\<lparr>stats := (stats a2)\<lparr>WindowSize := newWindowSize\<rparr>,
                        window := SetDuration (atSetDur c) newWindowSize (window a2)\<rparr>
                else a2)
      in (currentRate, a3))"

definition generateStats :: "TickClock \<Rightarrow> Analyzer \<Rightarrow> LogStats \<times> Analyzer" where
  "generateStats c a0 =
     (let a = a0\<lparr>muxTrace := muxTrace a0 @ [MuxLock]\<rparr>;
          (currentRate, a3) = adjustWindow c a;
          (totalCount', levelCounts', errorCounts') = GetStats (window a3);
          errorRates = (\<lambda>errType. case errorCounts' errType of
                          None \<Rightarrow> None
                        | Some n \<Rightarrow> Some (GetErrorRate (atErrRate c errType) errType
                                            (WindowSize (stats a3)) (window a3)));
          (emerging, pt) = GetEmergingPatterns (patternOrder c) (atChange c) (atStart c) (atEnd c)
                             (window a3) (patternTracker a3);
          a4 = a3\<lparr>patternTracker := pt,
                  stats := (stats a3)\<lparr>CurrentRate := currentRate,
                                      LevelCounts := levelCounts',
                                      ErrorCounts := errorCounts',
                                      StatsLastUpdated := atLast c,
                                      SkippedEntries := skippedEntries a3,
                                      ErrorRates := errorRates,
                                      EmergingPatterns := emerging,
                                      EmergingPatternHistory := GetPatternHistory pt\<rparr>\<rparr>;
          totalErrorRate = foldl (\<lambda>acc errType. acc + getr (ErrorRates (stats a4)) errType) 0 (rateOrder c);
          a5 = (if totalErrorRate > 5
                then a4\<lparr>alertChan := alertChan a4 @
                       [\<lparr>AlertTimestamp = atHigh c, AlertMessage = HighErrorRate totalErrorRate\<rparr>]\<rparr>
                else a4);
          a6 = (if bufferResized a5 then a5\<lparr>bufferResized := False\<rparr> else a5)
      in (cloneStats (atClone c) a6, a6\<lparr>muxTrace := muxTrace a6 @ [MuxUnlock]\<rparr>))"

text \<open>
  Whether every \<open>IncEntriesProcessed\<close> of a trace happens between a \<open>MuxLock\<close> and the
  next \<open>MuxUnlock\<close>; the flag says whether the mutex is held.
\<close>

fun guarded :: "bool \<Rightarrow> mux_event list \<Rightarrow> bool" where
  "guarded held [] = True"
| "guarded held (MuxLock # es) = guarded True es"
| "guarded held (MuxUnlock # es) = guarded False es"
| "guarded held (IncEntriesProcessed # es) = (held \<and> guarded held es)"

section \<open>Sequences of calls\<close>

text \<open>The two mutating operations of the window, each with its clock reading.\<close>

datatype window_op = OpAdd time LogEntry | OpSetDuration time int

fun applyOp :: "window_op \<Rightarrow> SlidingWindow \<Rightarrow> SlidingWindow" where
  "applyOp (OpAdd now entry) w = Add now entry w"
| "applyOp (OpSetDuration now durationSec) w = SetDuration now durationSec w"

fun runOps :: "window_op list \<Rightarrow> SlidingWindow \<Rightarrow> SlidingWindow" where
  "runOps [] w = w"
| "runOps (op # ops) w = runOps ops (applyOp op w)"

text \<open>
  A sequence of calls of \<open>UpdatePattern\<close>: each with its three clock readings, its
  entry and the window as it is at that call.
\<close>

fun updateAll ::
  "(time \<times> time \<times> time \<times> LogEntry \<times> SlidingWindow) list \<Rightarrow> PatternTracker \<Rightarrow> PatternTracker" where
  "updateAll [] pt = pt"
| "updateAll ((tNew, tNow, tRate, entry, win) # rest) pt =
     updateAll rest (UpdatePattern tNew tNow tRate entry win pt)"

text \<open>A sequence of calls of \<open>StoreEmergingPattern\<close>, each with its two clock readings.\<close>

fun storeAll :: "(time \<times> time \<times> string \<times> real) list \<Rightarrow> PatternTracker \<Rightarrow> PatternTracker" where
  "storeAll [] pt = pt"
| "storeAll ((tStart, tEnd, pattern, change) # rest) pt =
     storeAll rest (StoreEmergingPattern tStart tEnd pattern change pt)"

section \<open>The formulas of the specification\<close>

text \<open>
  These definitions follow the words of the specification, not the code; the theorems
  compare the code with them.
\<close>

text \<open>
  The rate-change formula: \<open>100 (recent - prev) / prev\<close> when \<open>prev > 0\<close>, \<open>100\<close> when
  \<open>prev = 0\<close> and \<open>recent > 0\<close>, \<open>0\<close> otherwise.
\<close>

definition spec_change :: "int \<Rightarrow> int \<Rightarrow> real" where
  "spec_change recent prev =
     (if prev > 0 then 100 * real_of_int (recent - prev) / real_of_int prev
      else if prev = 0 \<and> recent > 0 then 100
      else 0)"

text \<open>The number of entries of a list with a timestamp in the interval \<open>(lo, hi]\<close>.\<close>

definition spec_count_in :: "time \<Rightarrow> time \<Rightarrow> LogEntry list \<Rightarrow> int" where
  "spec_count_in lo hi l = int (length (filter (\<lambda>e. lo < Timestamp e \<and> Timestamp e \<le> hi) l))"

definition spec_get_error_change :: "time \<Rightarrow> string \<Rightarrow> int \<Rightarrow> int \<Rightarrow> SlidingWindow \<Rightarrow> real" where
  "spec_get_error_change now errorType recentSec prevSec w =
     (let l = getl (errorsByType w) errorType;
          recent = spec_count_in (now - recentSec * Second) now l;
          prev = spec_count_in (now - recentSec * Second - prevSec * Second)
                   (now - recentSec * Second) l
      in spec_change recent prev)"

text \<open>
  \<open>calculate_rate\<close> as the specification words it: evict the buckets with
  \<open>timestamp \<le> now - 120 s\<close>, then average the counts of the remaining buckets with
  \<open>timestamp > now - seconds\<close>; \<open>0\<close> if there is none.
\<close>

definition spec_calculate_rate :: "time \<Rightarrow> int \<Rightarrow> RateBucket list \<Rightarrow> real" where
  "spec_calculate_rate now seconds buckets =
     (let remaining = filter (\<lambda>b. \<not> BucketTimestamp b \<le> now - 120 * Second) buckets;
          relevant = filter (\<lambda>b. BucketTimestamp b > now - seconds * Second) remaining
      in if relevant = [] then 0
         else real_of_int (sum_list (map BucketCount relevant)) / real (length relevant))"

section \<open>Definitions used by the proofs\<close>

text \<open>An entry that \<open>Add\<close> indexes under the error type \<open>t\<close>.\<close>

definition isError :: "string \<Rightarrow> LogEntry \<Rightarrow> bool" where
  "isError t e = (Level e = ''ERROR'' \<and> ErrorType e = t \<and> t \<noteq> '''')"

text \<open>
  The invariant of the window: the counters and the secondary lists are those of the
  primary list. A secondary list is the primary list filtered, in the same order, which
  is why removing the first entry with an equal timestamp removes the right one.
\<close>

definition windowInv :: "SlidingWindow \<Rightarrow> bool" where
  "windowInv w =
     (totalCount w = int (length (entries w)) \<and>
      finite (dom (levelCounts w)) \<and>
      (\<forall>l. geti (levelCounts w) l = int (length (filter (\<lambda>e. Level e = l) (entries w)))) \<and>
      (\<forall>l. getl (entriesByType w) l = filter (\<lambda>e. Level e = l) (entries w)) \<and>
      (\<forall>t. geti (errorCounts w) t = int (length (filter (isError t) (entries w)))) \<and>
      (\<forall>t. getl (errorsByType w) t = filter (isError t) (entries w)))"

text \<open>
  The invariant of the pattern tracker: histories have the length \<open>historySize = 5\<close>
  and weights are zero.
\<close>

definition trackerInv :: "PatternTracker \<Rightarrow> bool" where
  "trackerInv pt =
     (historySize pt = 5 \<and>
      (\<forall>t p. patterns pt t = Some p \<longrightarrow> length (RateHistory p) = 5 \<and> Weight p = 0))"

text \<open>
  The event that \<open>StoreEmergingPattern tStart tEnd pattern change\<close> appends.
\<close>

definition storedEvent :: "time \<times> time \<times> string \<times> real \<Rightarrow> EmergingPatternEvent" where
  "storedEvent c = (case c of (tStart, tEnd, pattern, change) \<Rightarrow>
     \<lparr>Pattern = pattern, StartTime = tStart, EndTime = tEnd + 60 * Second,
      PeakChange = change, Description = ''Spike in '' @ pattern @ '' errors''\<rparr>)"

subsection \<open>Concrete inputs\<close>

text \<open>A parsed \<open>ERROR\<close> line of type \<open>X\<close> stamped \<open>ts\<close>, and parsed lines of other kinds.\<close>

definition errorX :: "time \<Rightarrow> LogEntry" where
  "errorX ts = \<lparr>Timestamp = ts, Level = ''ERROR'', IP = ''10.0.0.1'',
     Message = ''Error 500 - X'', ErrorType = ''X'', IsValid = True,
     OriginalLog = ''[..] ERROR - IP:10.0.0.1 Error 500 - X''\<rparr>"

text \<open>
  The window after one error \<open>X\<close> at second 0, after a second one at second 11, and
  after four more at second 22. Read at second 22, the last 10 seconds of the last
  window hold four errors, the last 15 seconds five, and the 15 seconds before one.
\<close>

definition windowAt0 :: SlidingWindow where
  "windowAt0 = runOps [OpAdd 0 (errorX 0)] (NewSlidingWindow 60)"

definition windowAt11 :: SlidingWindow where
  "windowAt11 = runOps [OpAdd (11 * Second) (errorX (11 * Second))] windowAt0"

definition spikeWindow :: SlidingWindow where
  "spikeWindow = runOps (replicate 4 (OpAdd (22 * Second) (errorX (22 * Second)))) windowAt11"

definition spikeOps :: "window_op list" where
  "spikeOps = [OpAdd 0 (errorX 0), OpAdd (11 * Second) (errorX (11 * Second))] @
              replicate 4 (OpAdd (22 * Second) (errorX (22 * Second)))"

text \<open>
  The calls of \<open>UpdatePattern\<close> that go with these windows: the first creates the
  pattern, the second rotates the history with the rate \<open>1/10\<close>, and \<open>spikeCall\<close>
  rotates it again with the rate \<open>4/10\<close>, four times the previous one.
\<close>

definition trackerCalls :: "(time \<times> time \<times> time \<times> LogEntry \<times> SlidingWindow) list" where
  "trackerCalls = [(0, 0, 0, errorX 0, windowAt0),
                   (11 * Second, 11 * Second, 11 * Second, errorX (11 * Second), windowAt11)]"

definition spikeCall :: "time \<times> time \<times> time \<times> LogEntry \<times> SlidingWindow" where
  "spikeCall = (22 * Second, 22 * Second, 22 * Second, errorX (22 * Second), spikeWindow)"

definition spikeTracker :: PatternTracker where
  "spikeTracker = updateAll (trackerCalls @ [spikeCall]) NewPatternTracker"

text \<open>
  An \<open>INFO\<close> line, a line the reader could not parse, a loop iteration whose clock
  readings are all \<open>0\<close>, and 100 valid entries with 5 malformed ones among them.
\<close>

definition infoEntry :: LogEntry where
  "infoEntry = \<lparr>Timestamp = 0, Level = ''INFO'', IP = ''10.0.0.1'', Message = '''',
     ErrorType = '''', IsValid = True, OriginalLog = ''[..] INFO - IP:10.0.0.1''\<rparr>"

definition malformed :: LogEntry where
  "malformed = \<lparr>Timestamp = 0, Level = '''', IP = '''', Message = '''',
     ErrorType = '''', IsValid = False, OriginalLog = ''garbage''\<rparr>"

definition clock0 :: StepClock where
  "clock0 = \<lparr>atRecv = 0, atBucket = 0, atAdd = 0, atNew = 0, atUpd = 0, atRate = 0\<rparr>"

definition mixedSteps :: "(StepClock \<times> LogEntry) list" where
  "mixedSteps = replicate 50 (clock0, infoEntry) @ replicate 5 (clock0, malformed) @
                replicate 50 (clock0, infoEntry)"

text \<open>
  An analyzer that committed, at second 1, the bucket of second 0 with 5 entries, and
  one that committed a bucket with 3000 entries. A tick of the snapshot cycle whose
  clock readings are all \<open>t\<close>, for an analyzer that has seen no error.
\<close>

definition staleAnalyzer :: Analyzer where
  "staleAnalyzer = updateRateBucket (1 * Second) 0 5 (NewAnalyzer 0 10000)"

definition surgeAnalyzer :: Analyzer where
  "surgeAnalyzer = updateRateBucket (1 * Second) 0 3000 (NewAnalyzer 0 10000)"

definition tickAt :: "time \<Rightarrow> TickClock" where
  "tickAt t = \<lparr>atCalc = t, atSurge = t, atSetDur = t, atLast = t, atErrRate = (\<lambda>k. t),
     patternOrder = [], atChange = (\<lambda>k. t), atStart = (\<lambda>k. t), atEnd = (\<lambda>k. t),
     rateOrder = [], atHigh = t, atClone = t\<rparr>"

text \<open>
  The window size the specification prescribes for the rate \<open>rate\<close> and the size \<open>w\<close>.
\<close>

definition spec_window_size :: "real \<Rightarrow> int \<Rightarrow> int" where
  "spec_window_size rate w =
     (if rate > 2500 \<and> w > 30 then max 30 (w - 10)
      else if rate < 600 \<and> w < 120 then min 120 (w + 10)
      else w)"

section \<open>The sliding window\<close>

subsection \<open>Evaluating the eviction loop\<close>

lemma removeExpiredEntries_Nil: "entries w = [] \<Longrightarrow> removeExpiredEntries c w = w"
  by (subst removeExpiredEntries.simps) simp

lemma removeExpiredEntries_keep:
  "entries w = e # rest \<Longrightarrow> \<not> Timestamp e < c \<Longrightarrow> removeExpiredEntries c w = w"
  by (subst removeExpiredEntries.simps) simp

lemma removeExpiredEntries_drop:
  "entries w = e # rest \<Longrightarrow> Timestamp e < c \<Longrightarrow>
   removeExpiredEntries c w = removeExpiredEntries c (expireEntry e (w\<lparr>entries := rest\<rparr>))"
  by (subst removeExpiredEntries.simps) simp

lemmas window_eval = Add_def NewSlidingWindow_def removeExpiredEntries_Nil
  removeExpiredEntries_keep[where rest="_"] pushBack_def getl_def incr_def geti_def Let_def
  errorX_def Second_def

lemma windowAt0_eval:
  "windowAt0 =
     \<lparr>entries = [errorX 0], entriesByType = [''ERROR'' \<mapsto> [errorX 0]],
      errorsByType = [''X'' \<mapsto> [errorX 0]], duration = 60 * Second, totalCount = 1,
      levelCounts = [''ERROR'' \<mapsto> 1], errorCounts = [''X'' \<mapsto> 1]\<rparr>"
  unfolding windowAt0_def by (simp add: window_eval)

lemma windowAt11_eval:
  "windowAt11 =
     \<lparr>entries = [errorX 0, errorX (11 * Second)],
      entriesByType = [''ERROR'' \<mapsto> [errorX 0, errorX (11 * Second)]],
      errorsByType = [''X'' \<mapsto> [errorX 0, errorX (11 * Second)]],
      duration = 60 * Second, totalCount = 2,
      levelCounts = [''ERROR'' \<mapsto> 2], errorCounts = [''X'' \<mapsto> 2]\<rparr>"
  unfolding windowAt11_def by (simp add: windowAt0_eval) (simp add: window_eval)

lemma spikeWindow_eval:
  "spikeWindow =
     \<lparr>entries = [errorX 0, errorX (11 * Second), errorX (22 * Second), errorX (22 * Second),
                 errorX (22 * Second), errorX (22 * Second)],
      entriesByType = [''ERROR'' \<mapsto> [errorX 0, errorX (11 * Second), errorX (22 * Second),
         errorX (22 * Second), errorX (22 * Second), errorX (22 * Second)]],
      errorsByType = [''X'' \<mapsto> [errorX 0, errorX (11 * Second), errorX (22 * Second),
         errorX (22 * Second), errorX (22 * Second), errorX (22 * Second)]],
      duration = 60 * Second, totalCount = 6,
      levelCounts = [''ERROR'' \<mapsto> 6], errorCounts = [''X'' \<mapsto> 6]\<rparr>"
  unfolding spikeWindow_def
  by (simp add: windowAt11_eval numeral_eq_Suc) (simp add: window_eval)

lemma spikeWindow_runOps: "spikeWindow = runOps spikeOps (NewSlidingWindow 60)"
  by (simp add: spikeWindow_def windowAt11_def windowAt0_def spikeOps_def)

subsection \<open>The invariant\<close>

lemma getl_removeFromIndex:
  "getl (removeFromIndex k ts m) l =
     (if l = k then removeFirstAt ts (getl m k) else getl m l)"
  by (auto simp: removeFromIndex_def getl_def split: option.splits)

lemma geti_upd: "geti (m(k \<mapsto> v)) l = (if l = k then v else geti m l)"
  by (simp add: geti_def)

lemma geti_incr: "geti (incr k m) l = (if l = k then geti m k + 1 else geti m l)"
  by (simp add: incr_def geti_def)

lemma dom_incr: "dom (incr k m) = insert k (dom m)"
  by (simp add: incr_def)

lemma getl_pushBack: "getl (pushBack k e m) l = (if l = k then getl m k @ [e] else getl m l)"
  by (simp add: pushBack_def getl_def)

lemma isError_iff:
  "isError t e \<longleftrightarrow> (Level e = ''ERROR'' \<and> ErrorType e \<noteq> '''') \<and> t = ErrorType e"
  by (auto simp: isError_def)

lemma windowInv_expireEntry:
  assumes "windowInv w" and "entries w = e # rest"
  shows "windowInv (expireEntry e (w\<lparr>entries := rest\<rparr>))"
proof (cases "Level e = ''ERROR'' \<and> ErrorType e \<noteq> ''''")
  case True
  with assms show ?thesis
    unfolding windowInv_def expireEntry_def Let_def
    by (simp add: geti_upd getl_removeFromIndex isError_iff)
next
  case False
  with assms show ?thesis
    unfolding windowInv_def expireEntry_def Let_def
    by (simp add: geti_upd getl_removeFromIndex isError_iff)
qed

lemma windowInv_removeExpiredEntries:
  "windowInv w \<Longrightarrow> windowInv (removeExpiredEntries cutoff w)"
proof (induction cutoff w rule: removeExpiredEntries.induct)
  case (1 cutoff w)
  show ?case
  proof (cases "entries w")
    case Nil
    with "1.prems" show ?thesis by (simp add: removeExpiredEntries_Nil)
  next
    case (Cons e rest)
    show ?thesis
    proof (cases "Timestamp e < cutoff")
      case True
      from "1.IH"[OF Cons True windowInv_expireEntry[OF "1.prems" Cons]]
      show ?thesis by (simp add: removeExpiredEntries_drop[OF Cons True])
    next
      case False
      with "1.prems" show ?thesis by (simp add: removeExpiredEntries_keep[OF Cons])
    qed
  qed
qed

lemma windowInv_Add: "windowInv w \<Longrightarrow> windowInv (Add now entry w)"
  using windowInv_removeExpiredEntries[of w "now - duration w"]
  unfolding windowInv_def Add_def Let_def
  by (simp add: geti_incr getl_pushBack isError_iff dom_incr)

lemma windowInv_SetDuration: "windowInv w \<Longrightarrow> windowInv (SetDuration now d w)"
proof -
  assume a: "windowInv w"
  then have "windowInv (w\<lparr>duration := d * Second\<rparr>)" by (simp add: windowInv_def)
  from windowInv_removeExpiredEntries[OF this] a show ?thesis
    by (simp add: SetDuration_def Let_def windowInv_def)
qed

lemma windowInv_New: "windowInv (NewSlidingWindow d)"
  by (simp add: windowInv_def NewSlidingWindow_def geti_def getl_def)

lemma windowInv_runOps: "windowInv w \<Longrightarrow> windowInv (runOps ops w)"
proof (induction ops arbitrary: w)
  case Nil
  then show ?case by simp
next
  case (Cons op ops)
  then show ?case by (cases op) (simp_all add: windowInv_Add windowInv_SetDuration)
qed

lemma sum_filter_lengths:
  "finite A \<Longrightarrow> f ` set xs \<subseteq> A \<Longrightarrow>
   (\<Sum>l\<in>A. int (length (filter (\<lambda>e. f e = l) xs))) = int (length xs)"
proof (induction xs)
  case Nil
  then show ?case by simp
next
  case (Cons x xs)
  then have IH: "(\<Sum>l\<in>A. int (length (filter (\<lambda>e. f e = l) xs))) = int (length xs)"
    and xA: "f x \<in> A" by auto
  have "(\<Sum>l\<in>A. int (length (filter (\<lambda>e. f e = l) (x # xs)))) =
        (\<Sum>l\<in>A. (if l = f x then 1 else 0) + int (length (filter (\<lambda>e. f e = l) xs)))"
    by (rule sum.cong) auto
  also have "\<dots> = (\<Sum>l\<in>A. if l = f x then 1 else 0) + int (length xs)"
    by (simp add: sum.distrib IH)
  also have "(\<Sum>l\<in>A. if l = f x then 1 else (0::int)) = 1"
    using Cons.prems(1) xA by simp
  finally show ?case by simp
qed

lemma windowInv_sum:
  assumes "windowInv w"
  shows "(\<Sum>l\<in>dom (levelCounts w). geti (levelCounts w) l) = int (length (entries w))"
proof -
  have lv: "\<And>l. geti (levelCounts w) l = int (length (filter (\<lambda>e. Level e = l) (entries w)))"
    and fin: "finite (dom (levelCounts w))"
    using assms by (auto simp: windowInv_def)
  have sub: "Level ` set (entries w) \<subseteq> dom (levelCounts w)"
  proof
    fix l assume "l \<in> Level ` set (entries w)"
    then obtain e where e: "e \<in> set (entries w)" "Level e = l" by auto
    then have "filter (\<lambda>e. Level e = l) (entries w) \<noteq> []"
      by (auto simp: filter_empty_conv)
    then have "geti (levelCounts w) l \<noteq> 0" by (simp add: lv)
    then show "l \<in> dom (levelCounts w)" by (auto simp: geti_def split: option.splits)
  qed
  show ?thesis
    using sum_filter_lengths[OF fin sub] by (simp add: lv)
qed

text \<open>
  Claim C7. After any sequence of \<open>Add\<close> and \<open>SetDuration\<close> calls on a new window,
  \<open>totalCount\<close> is the length of the primary list and the sum of \<open>levelCounts\<close>, and for
  every error type \<open>t\<close>, \<open>errorCounts[t]\<close> is the length of the error list of \<open>t\<close>, whose
  elements all occur in the primary list. The sequence is arbitrary: the property needs
  neither valid entries nor ordered timestamps nor ordered clock readings, so it holds
  in particular for the sequences of the claim, and after each operation, since every
  prefix of a sequence is a sequence.
\<close>

theorem window_counts_consistent:
  fixes ops :: "window_op list" and durationSec :: int
  defines "w \<equiv> runOps ops (NewSlidingWindow durationSec)"
  shows "totalCount w = int (length (entries w)) \<and>
         totalCount w = (\<Sum>l\<in>dom (levelCounts w). geti (levelCounts w) l) \<and>
         (\<forall>t. geti (errorCounts w) t = int (length (getl (errorsByType w) t)) \<and>
              set (getl (errorsByType w) t) \<subseteq> set (entries w))"
proof -
  have inv: "windowInv w"
    unfolding w_def by (rule windowInv_runOps[OF windowInv_New])
  from windowInv_sum[OF inv] inv show ?thesis by (auto simp: windowInv_def)
qed

theorem window_counts_consistent_witness:
  "totalCount spikeWindow = 6 \<and>
   totalCount spikeWindow = int (length (entries spikeWindow)) \<and>
   totalCount spikeWindow = (\<Sum>l\<in>dom (levelCounts spikeWindow). geti (levelCounts spikeWindow) l) \<and>
   geti (errorCounts spikeWindow) ''X'' = int (length (getl (errorsByType spikeWindow) ''X'')) \<and>
   set (getl (errorsByType spikeWindow) ''X'') \<subseteq> set (entries spikeWindow)"
  using window_counts_consistent[of spikeOps 60]
  unfolding spikeWindow_runOps[symmetric]
  by (simp add: spikeWindow_eval)

subsection \<open>The scan of GetErrorChange\<close>

lemma changeScan_sorted:
  "sorted (rev (map Timestamp xs)) \<Longrightarrow>
   changeScan rc pc xs (a, b) =
     (a + int (length (filter (\<lambda>e. rc < Timestamp e) xs)),
      b + int (length (filter (\<lambda>e. pc < Timestamp e \<and> Timestamp e \<le> rc) xs)))"
proof (induction xs arbitrary: a b)
  case Nil
  then show ?case by simp
next
  case (Cons e es)
  then have srt: "sorted (rev (map Timestamp es))"
    and le: "\<forall>x\<in>set es. Timestamp x \<le> Timestamp e"
    by (auto simp: sorted_append)
  show ?case
  proof (cases "Timestamp e > rc")
    case True
    then show ?thesis using Cons.IH[OF srt] by simp
  next
    case False
    note nrc = this
    show ?thesis
    proof (cases "Timestamp e > pc")
      case True
      then show ?thesis using nrc Cons.IH[OF srt] by simp
    next
      case False
      have "filter (\<lambda>x. rc < Timestamp x) es = []"
        using le nrc by (auto simp: filter_empty_conv)
      moreover have "filter (\<lambda>x. pc < Timestamp x \<and> Timestamp x \<le> rc) es = []"
        using le False by (auto simp: filter_empty_conv)
      ultimately show ?thesis using nrc False by simp
    qed
  qed
qed

lemma length_filter_rev: "length (filter P (rev xs)) = length (filter P xs)"
  by (simp add: rev_filter[symmetric])

lemma GetErrorChange_sorted:
  assumes "sorted (map Timestamp (getl (errorsByType w) t))"
    and "\<forall>e\<in>set (getl (errorsByType w) t). Timestamp e \<le> now"
  shows "GetErrorChange now t recentSec prevSec w = spec_get_error_change now t recentSec prevSec w"
proof (cases "errorsByType w t")
  case None
  then show ?thesis
    by (simp add: GetErrorChange_def spec_get_error_change_def getl_def spec_count_in_def
        spec_change_def)
next
  case (Some l)
  then have l: "getl (errorsByType w) t = l" by (simp add: getl_def)
  have srt: "sorted (rev (map Timestamp (rev l)))" using assms(1) l by (simp add: rev_map)
  have le: "\<forall>e\<in>set l. Timestamp e \<le> now" using assms(2) l by simp
  have eq1: "filter (\<lambda>e. now - recentSec * Second < Timestamp e \<and> Timestamp e \<le> now) l
           = filter (\<lambda>e. now - recentSec * Second < Timestamp e) l"
    using le by (intro filter_cong) auto
  show ?thesis
    unfolding GetErrorChange_def spec_get_error_change_def Let_def Some l
    by (simp add: changeScan_sorted[OF srt] length_filter_rev spec_count_in_def eq1
        spec_change_def)
qed

text \<open>
  Claim C4, as stated, fails: the scan has no upper bound \<open>now\<close> and stops at the first
  entry that is not after the previous cutoff. A window that holds one error \<open>X\<close>
  stamped one second after \<open>now\<close> (the stamp comes from the log line, not from the
  clock) has no entry in either interval, so the claim gives \<open>0\<close>; the code counts the
  entry as recent and returns \<open>100\<close>.
\<close>

theorem get_error_change_counterexample:
  "GetErrorChange 0 ''X'' 15 15 (Add 0 (errorX (1 * Second)) (NewSlidingWindow 60)) = 100 \<and>
   spec_get_error_change 0 ''X'' 15 15 (Add 0 (errorX (1 * Second)) (NewSlidingWindow 60)) = 0"
  by (simp add: GetErrorChange_def spec_get_error_change_def spec_count_in_def spec_change_def
      Add_def NewSlidingWindow_def removeExpiredEntries_Nil errorX_def pushBack_def getl_def
      incr_def geti_def Second_def Let_def)

text \<open>
  Claim C4, amended. When the error list of \<open>t\<close> is in non-decreasing order of
  timestamps and holds no timestamp later than \<open>now\<close>, \<open>GetErrorChange\<close> returns the
  formula of the specification on the numbers of entries of the list with a timestamp
  in \<open>(now - recent_sec, now]\<close> and in \<open>(now - recent_sec - prev_sec, now - recent_sec]\<close>;
  for an unknown error type it returns \<open>0\<close>; and the formula has the four values listed.
\<close>

theorem get_error_change_amended:
  "(errorsByType w t = None \<longrightarrow> GetErrorChange now t recentSec prevSec w = 0) \<and>
   (sorted (map Timestamp (getl (errorsByType w) t)) \<and>
    (\<forall>e\<in>set (getl (errorsByType w) t). Timestamp e \<le> now) \<longrightarrow>
      GetErrorChange now t recentSec prevSec w =
        spec_get_error_change now t recentSec prevSec w) \<and>
   spec_change 0 0 = 0 \<and>
   (0 < r \<longrightarrow> spec_change r 0 = 100) \<and>
   (0 < p \<longrightarrow> spec_change (2 * p) p = 100 \<and> spec_change p p = 0)"
  using GetErrorChange_sorted[of w t now recentSec prevSec]
  by (simp add: spec_change_def GetErrorChange_def)

theorem get_error_change_amended_witness:
  "errorsByType spikeWindow ''Y'' = None \<and>
   GetErrorChange (22 * Second) ''Y'' 15 15 spikeWindow = 0 \<and>
   sorted (map Timestamp (getl (errorsByType spikeWindow) ''X'')) \<and>
   list_all (\<lambda>e. Timestamp e \<le> 22 * Second) (getl (errorsByType spikeWindow) ''X'') \<and>
   GetErrorChange (22 * Second) ''X'' 15 15 spikeWindow = 400 \<and>
   spec_get_error_change (22 * Second) ''X'' 15 15 spikeWindow = 400 \<and>
   (0::int) < 3 \<and> spec_change 3 0 = 100 \<and> spec_change (2 * 3) 3 = 100 \<and> spec_change 3 3 = 0"
  using get_error_change_amended[of spikeWindow "''Y''" "22 * Second" 15 15 3 3]
    get_error_change_amended[of spikeWindow "''X''" "22 * Second" 15 15 3 3]
  by (simp add: spikeWindow_eval getl_def errorX_def Second_def GetErrorChange_def)

section \<open>The pattern tracker\<close>

subsection \<open>Evaluating the concrete calls\<close>

lemma rate_windowAt11: "GetErrorRate 11000000000 ''X'' 10 windowAt11 = 1 / 10"
  by (simp add: GetErrorRate_def windowAt11_eval errorX_def Second_def)

lemma rate_spikeWindow: "GetErrorRate 22000000000 ''X'' 10 spikeWindow = 4 / 10"
  by (simp add: GetErrorRate_def spikeWindow_eval errorX_def Second_def)

lemma trackerCalls_eval:
  "updateAll trackerCalls NewPatternTracker =
     \<lparr>patterns = [''X'' \<mapsto> \<lparr>Count = 2, Weight = 0, LastUpdated = 11 * Second,
                               RateHistory = [1 / 10, 0, 0, 0, 0]\<rparr>],
      historySize = 5, patternHistory = []\<rparr>"
  by (simp add: rate_windowAt11 trackerCalls_def UpdatePattern_def NewPatternTracker_def
      shiftHistory_def copySlice_def Let_def errorX_def Second_def numeral_eq_Suc)

lemma spikeCall_eval:
  "UpdatePattern (22 * Second) (22 * Second) (22 * Second) (errorX (22 * Second)) spikeWindow
     (updateAll trackerCalls NewPatternTracker) =
     \<lparr>patterns = [''X'' \<mapsto> \<lparr>Count = 3, Weight = 0, LastUpdated = 22 * Second,
                               RateHistory = [4 / 10, 1 / 10, 0, 0, 0]\<rparr>],
      historySize = 5, patternHistory = []\<rparr>"
  by (simp add: rate_spikeWindow trackerCalls_eval UpdatePattern_def shiftHistory_def
      copySlice_def Let_def errorX_def Second_def)

lemma updateAll_append:
  "updateAll (xs @ ys) pt = updateAll ys (updateAll xs pt)"
  by (induction xs pt rule: updateAll.induct) simp_all

lemma spikeTracker_eval:
  "spikeTracker =
     \<lparr>patterns = [''X'' \<mapsto> \<lparr>Count = 3, Weight = 0, LastUpdated = 22 * Second,
                               RateHistory = [4 / 10, 1 / 10, 0, 0, 0]\<rparr>],
      historySize = 5, patternHistory = []\<rparr>"
  by (simp add: spikeTracker_def updateAll_append spikeCall_def spikeCall_eval)

lemma change_spikeWindow: "GetErrorChange 22000000000 ''X'' 15 15 spikeWindow = 400"
  by (simp add: GetErrorChange_def spikeWindow_eval errorX_def Second_def)

subsection \<open>Histories and weights\<close>

lemma length_copySlice [simp]: "length (copySlice dst src) = length dst"
  by (simp add: copySlice_def)

lemma length_shiftHistory [simp]: "length (shiftHistory hs h) = length h"
  by (cases h) (simp_all add: shiftHistory_def)


lemma trackerInv_New: "trackerInv NewPatternTracker"
  by (simp add: trackerInv_def NewPatternTracker_def)

lemma trackerInv_UpdatePattern:
  "trackerInv pt \<Longrightarrow> trackerInv (UpdatePattern tNew tNow tRate entry win pt)"
  unfolding trackerInv_def UpdatePattern_def Let_def
  by (auto split: option.splits)

lemma trackerInv_updateAll: "trackerInv pt \<Longrightarrow> trackerInv (updateAll calls pt)"
  by (induction calls pt rule: updateAll.induct) (simp_all add: trackerInv_UpdatePattern)

text \<open>
  Every history a tracker holds has the length \<open>historySize = 5\<close>: the slice
  expressions of \<open>UpdatePattern\<close> are always in range.
\<close>

lemma reachable_history_length:
  "patterns (updateAll calls NewPatternTracker) t = Some p \<Longrightarrow>
   length (RateHistory p) = historySize (updateAll calls NewPatternTracker) \<and>
   historySize (updateAll calls NewPatternTracker) = 5"
  using trackerInv_updateAll[OF trackerInv_New, of calls] by (auto simp: trackerInv_def)

text \<open>
  Claim C6. After any sequence of \<open>UpdatePattern\<close> calls on a new tracker, every
  pattern the tracker holds has weight \<open>0\<close>: a pattern is created with weight \<open>0\<close> and
  the only change of a weight is its multiplication by \<open>3\<close>.
\<close>

theorem weight_always_zero:
  "patterns (updateAll calls NewPatternTracker) t = Some p \<Longrightarrow> Weight p = 0"
  using trackerInv_updateAll[OF trackerInv_New, of calls] by (auto simp: trackerInv_def)

theorem weight_always_zero_witness:
  "patterns (updateAll (trackerCalls @ [spikeCall]) NewPatternTracker) ''X'' =
     Some \<lparr>Count = 3, Weight = 0, LastUpdated = 22 * Second,
           RateHistory = [4 / 10, 1 / 10, 0, 0, 0]\<rparr> \<and>
   Weight \<lparr>Count = 3, Weight = 0, LastUpdated = 22 * Second,
           RateHistory = [4 / 10, 1 / 10, 0, 0, 0]\<rparr> = 0"
  using weight_always_zero[of "trackerCalls @ [spikeCall]" "''X''"
      "\<lparr>Count = 3, Weight = 0, LastUpdated = 22 * Second,
        RateHistory = [4 / 10, 1 / 10, 0, 0, 0]\<rparr>"]
  by (simp add: spikeTracker_eval[unfolded spikeTracker_def])



subsection \<open>Emerging patterns\<close>

lemma patterns_Store [simp]: "patterns (StoreEmergingPattern a b c d pt) = patterns pt"
  by (simp add: StoreEmergingPattern_def Let_def)

lemma patterns_storeAll [simp]: "patterns (storeAll ss pt) = patterns pt"
  by (induction ss pt rule: storeAll.induct) simp_all

lemma drop_window:
  "drop (length (drop (length xs - n) xs @ r) - n) (drop (length xs - n) xs @ r) =
   drop (length (xs @ r) - n) (xs @ r)"
  by (cases "length xs \<le> n") (auto simp: add.commute)

lemma history_Store:
  "length (patternHistory pt) \<le> 5 \<Longrightarrow>
   patternHistory (StoreEmergingPattern a b c d pt) =
     drop (length (patternHistory pt @ [storedEvent (a, b, c, d)]) - 5)
       (patternHistory pt @ [storedEvent (a, b, c, d)])"
proof (cases "length (patternHistory pt) = 5")
  case True
  then show ?thesis by (simp add: StoreEmergingPattern_def Let_def storedEvent_def)
next
  case False
  assume "length (patternHistory pt) \<le> 5"
  with False have "length (patternHistory pt) < 5" by simp
  then show ?thesis by (simp add: StoreEmergingPattern_def Let_def storedEvent_def)
qed

lemma length_history_Store:
  "length (patternHistory pt) \<le> 5 \<Longrightarrow>
   length (patternHistory (StoreEmergingPattern a b c d pt)) \<le> 5"
  by (auto simp: StoreEmergingPattern_def Let_def)

lemma history_storeAll:
  "length (patternHistory pt) \<le> 5 \<Longrightarrow>
   patternHistory (storeAll ss pt) =
     drop (length (patternHistory pt @ map storedEvent ss) - 5)
       (patternHistory pt @ map storedEvent ss)"
proof (induction ss arbitrary: pt)
  case Nil
  then show ?case by simp
next
  case (Cons s ss)
  obtain a b c d where s: "s = (a, b, c, d)" by (cases s) auto
  let ?pt = "StoreEmergingPattern a b c d pt"
  let ?h = "patternHistory pt @ [storedEvent s]"
  have h: "patternHistory ?pt = drop (length ?h - 5) ?h"
    using history_Store[OF Cons.prems] s by simp
  have "patternHistory (storeAll (s # ss) pt) = patternHistory (storeAll ss ?pt)"
    by (simp add: s)
  also have "\<dots> = drop (length (patternHistory ?pt @ map storedEvent ss) - 5)
                     (patternHistory ?pt @ map storedEvent ss)"
    by (rule Cons.IH[OF length_history_Store[OF Cons.prems]])
  also have "\<dots> = drop (length (?h @ map storedEvent ss) - 5) (?h @ map storedEvent ss)"
    unfolding h by (rule drop_window)
  finally show ?case by simp
qed

lemma storeSignificant_storeAll:
  "storeSignificant ts te xs pt = storeAll (map (\<lambda>(p, c). (ts p, te p, p, c)) xs) pt"
  by (induction ts te xs pt rule: storeSignificant.induct) simp_all

lemma collectSignificant_eq:
  "collectSignificant tc win order (res, sp, sc) =
     ((\<lambda>t. if t \<in> set (filter (\<lambda>t. GetErrorChange (tc t) t 15 15 win > 100) order)
            then Some (GetErrorChange (tc t) t 15 15 win) else res t),
      sp @ filter (\<lambda>t. GetErrorChange (tc t) t 15 15 win > 100) order,
      sc @ map (\<lambda>t. GetErrorChange (tc t) t 15 15 win)
             (filter (\<lambda>t. GetErrorChange (tc t) t 15 15 win > 100) order))"
proof (induction order arbitrary: res sp sc)
  case Nil
  then show ?case by simp
next
  case (Cons t order)
  show ?case
    by (simp add: Cons.IH Let_def fun_eq_iff)
qed

text \<open>
  Claim C8, as stated, fails in one point: \<open>end_time = start_time + 60 s\<close>.
  \<open>StoreEmergingPattern\<close> reads the clock once for \<open>StartTime\<close> and once more for
  \<open>EndTime\<close>. Here the tracker knows \<open>X\<close>, whose change is \<open>400\<close>, and the second reading
  comes one nanosecond after the first: the event ends 60 seconds and one nanosecond
  after its start.
\<close>

theorem emerging_patterns_counterexample:
  "fst (GetEmergingPatterns [''X''] (\<lambda>t. 22 * Second) (\<lambda>t. 22 * Second) (\<lambda>t. 22 * Second + 1)
          spikeWindow spikeTracker) ''X'' = Some 400 \<and>
   map (\<lambda>e. EndTime e - StartTime e)
     (patternHistory (snd (GetEmergingPatterns [''X''] (\<lambda>t. 22 * Second) (\<lambda>t. 22 * Second)
          (\<lambda>t. 22 * Second + 1) spikeWindow spikeTracker))) = [60 * Second + 1]"
  by (simp add: GetEmergingPatterns_def change_spikeWindow spikeTracker_eval
      StoreEmergingPattern_def Let_def Second_def)

text \<open>
  Claim C8, amended. \<open>order\<close> lists the error types the tracker knows, in the order the
  loop visits them, and the tracker holds at most five events, as every tracker does.
  The call returns the map that sends exactly the known types with a change above
  \<open>100\<close> to their change. It appends, in the order of the visit, one event for each
  of them, whose \<open>PeakChange\<close> is the change, whose \<open>StartTime\<close> is a clock reading and
  whose \<open>EndTime\<close> is the next clock reading plus 60 seconds (\<open>StartTime\<close> plus 60 seconds
  when the two readings coincide), and keeps the last five events. After any \<open>N\<close>
  events stored in a new tracker, the history is the last \<open>min N 5\<close> of them.
\<close>

theorem emerging_patterns_amended:
  fixes order tc ts te win pt ss
  defines "change \<equiv> \<lambda>t. GetErrorChange (tc t) t 15 15 win"
  defines "included \<equiv> filter (\<lambda>t. change t > 100) order"
  defines "all \<equiv> patternHistory pt @ map (\<lambda>t. storedEvent (ts t, te t, t, change t)) included"
  defines "r \<equiv> GetEmergingPatterns order tc ts te win pt"
  assumes "set order = dom (patterns pt)" and "length (patternHistory pt) \<le> 5"
  shows "fst r = (\<lambda>t. if t \<in> dom (patterns pt) \<and> change t > 100 then Some (change t) else None) \<and>
         patternHistory (snd r) = drop (length all - 5) all \<and>
         length (patternHistory (snd r)) = min (length all) 5 \<and>
         patterns (snd r) = patterns pt \<and>
         patternHistory (storeAll ss NewPatternTracker) =
           drop (length ss - 5) (map storedEvent ss) \<and>
         length (patternHistory (storeAll ss NewPatternTracker)) = min (length ss) 5 \<and>
         Pattern (storedEvent (a, b, q, c)) = q \<and>
         StartTime (storedEvent (a, b, q, c)) = a \<and>
         EndTime (storedEvent (a, b, q, c)) = b + 60 * Second \<and>
         PeakChange (storedEvent (a, b, q, c)) = c \<and>
         (b = a \<longrightarrow> EndTime (storedEvent (a, b, q, c)) =
                     StartTime (storedEvent (a, b, q, c)) + 60 * Second)"
proof -
  have z: "zip included (map change included) = map (\<lambda>t. (t, change t)) included"
    by (induction included) simp_all
  have r: "r = ((\<lambda>t. if t \<in> set included then Some (change t) else None),
               storeAll (map (\<lambda>t. (ts t, te t, t, change t)) included) pt)"
  proof -
    have c: "collectSignificant tc win order (Map.empty, [], []) =
        ((\<lambda>t. if t \<in> set included then Some (change t) else None), included,
         map change included)"
      unfolding included_def change_def by (simp add: collectSignificant_eq)
    show ?thesis
      unfolding r_def GetEmergingPatterns_def c
      by (simp add: z storeSignificant_storeAll comp_def)
  qed
  have h: "patternHistory (snd r) = drop (length all - 5) all"
    unfolding r all_def using history_storeAll[OF assms(6)] by (simp add: comp_def)
  have n: "patternHistory (storeAll ss NewPatternTracker) =
             drop (length ss - 5) (map storedEvent ss)"
    using history_storeAll[of NewPatternTracker ss] by (simp add: NewPatternTracker_def)
  have f: "fst r = (\<lambda>t. if t \<in> dom (patterns pt) \<and> change t > 100 then Some (change t)
                        else None)"
    unfolding r using assms(5) by (auto simp: included_def fun_eq_iff)
  show ?thesis
    using h n f by (auto simp: r storedEvent_def)
qed

theorem emerging_patterns_amended_witness:
  "set [''X''] = dom (patterns spikeTracker) \<and>
   length (patternHistory spikeTracker) \<le> 5 \<and>
   fst (GetEmergingPatterns [''X''] (\<lambda>t. 22 * Second) (\<lambda>t. 22 * Second) (\<lambda>t. 22 * Second)
          spikeWindow spikeTracker) ''X'' = Some 400 \<and>
   patternHistory (snd (GetEmergingPatterns [''X''] (\<lambda>t. 22 * Second) (\<lambda>t. 22 * Second)
          (\<lambda>t. 22 * Second) spikeWindow spikeTracker)) =
     [storedEvent (22 * Second, 22 * Second, ''X'', 400)] \<and>
   length (patternHistory (storeAll (replicate 7 (0, 0, ''X'', 400)) NewPatternTracker)) = 5 \<and>
   EndTime (storedEvent (22 * Second, 22 * Second, ''X'', 400)) =
     StartTime (storedEvent (22 * Second, 22 * Second, ''X'', 400)) + 60 * Second"
  using emerging_patterns_amended[where order = "[''X'']" and tc = "\<lambda>t. 22 * Second"
      and ts = "\<lambda>t. 22 * Second" and te = "\<lambda>t. 22 * Second" and win = spikeWindow
      and pt = spikeTracker and ss = "replicate 7 (0, 0, ''X'', 400)"
      and a = "22 * Second" and b = "22 * Second" and q = "''X''" and c = 400]
  by (simp add: spikeTracker_eval change_spikeWindow Second_def)

section \<open>The analyzer\<close>

subsection \<open>The rate buckets\<close>

lemma bucketScan_eq:
  "bucketScan cutoff bs (t, r) =
     (t + sum_list (map BucketCount (filter (\<lambda>b. BucketTimestamp b > cutoff) bs)),
      r + int (length (filter (\<lambda>b. BucketTimestamp b > cutoff) bs)))"
  by (induction bs arbitrary: t r) simp_all

lemma calculateRate_eq:
  "calculateRate now seconds a =
     (let relevant = filter (\<lambda>b. BucketTimestamp b > now - seconds * Second) (rateBuckets a)
      in if relevant = [] then 0
         else real_of_int (sum_list (map BucketCount relevant)) / real (length relevant))"
  by (simp add: calculateRate_def bucketScan_eq Let_def)

lemma Second_pos: "0 < Second"
  by (simp add: Second_def)

lemma spec_rate_le_120:
  assumes "seconds \<le> 120"
  shows "calculateRate now seconds a = spec_calculate_rate now seconds (rateBuckets a)"
proof -
  have "seconds * Second \<le> 120 * Second" using assms Second_pos by simp
  then have "filter (\<lambda>b. BucketTimestamp b > now - seconds * Second)
               (filter (\<lambda>b. \<not> BucketTimestamp b \<le> now - 120 * Second) (rateBuckets a)) =
             filter (\<lambda>b. BucketTimestamp b > now - seconds * Second) (rateBuckets a)"
    by (auto intro!: filter_cong)
  then show ?thesis
    by (simp add: calculateRate_eq spec_calculate_rate_def Let_def)
qed

lemma calculateRate_muxTrace [simp]:
  "calculateRate t n (a\<lparr>muxTrace := m\<rparr>) = calculateRate t n a"
  by (simp add: calculateRate_def)

lemma calculateRate_cong:
  "rateBuckets a = rateBuckets b \<Longrightarrow> calculateRate t n a = calculateRate t n b"
  by (simp add: calculateRate_def)

subsection \<open>The snapshot cycle\<close>

lemma adjustWindow_eq:
  fixes c a
  defines "r \<equiv> calculateRate (atCalc c) 10 a"
  defines "w \<equiv> WindowSize (stats a)"
  defines "w' \<equiv> spec_window_size r w"
  shows "fst (adjustWindow c a) = r"
    "WindowSize (stats (snd (adjustWindow c a))) = w'"
    "PreviousWindowSize (stats (snd (adjustWindow c a))) = PreviousWindowSize (stats a)"
    "alertChan (snd (adjustWindow c a)) =
       alertChan a @ (if r > 2500 \<and> w > 30
                      then [\<lparr>AlertTimestamp = atSurge c, AlertMessage = WindowAdjusted w'\<rparr>]
                      else [])"
    "window (snd (adjustWindow c a)) =
       (if w' \<noteq> w then SetDuration (atSetDur c) w' (window a) else window a)"
    "rateBuckets (snd (adjustWindow c a)) = rateBuckets a"
  unfolding r_def w_def w'_def spec_window_size_def
  by (simp_all add: adjustWindow_def Let_def maxInt_def minInt_def max_def min_def
      calculateRate_def split: prod.splits)

lemma generateStats_eq:
  fixes c a
  defines "r \<equiv> calculateRate (atCalc c) 10 a"
  defines "w \<equiv> WindowSize (stats a)"
  defines "w' \<equiv> spec_window_size r w"
  defines "g \<equiv> generateStats c a"
  shows "WindowSize (stats (snd g)) = w'"
    "WindowSize (fst g) = w'"
    "PreviousWindowSize (stats (snd g)) = PreviousWindowSize (stats a)"
    "PreviousWindowSize (fst g) = 60"
    "rateBuckets (snd g) = rateBuckets a"
proof -
  let ?a = "a\<lparr>muxTrace := muxTrace a @ [MuxLock]\<rparr>"
  have aw: "WindowSize (stats (snd (adjustWindow c ?a))) = w'"
    "PreviousWindowSize (stats (snd (adjustWindow c ?a))) = PreviousWindowSize (stats a)"
    "rateBuckets (snd (adjustWindow c ?a)) = rateBuckets a"
    using adjustWindow_eq(2,3,6)[of c ?a] by (simp_all add: r_def w_def w'_def)
  show "WindowSize (stats (snd g)) = w'"
    "WindowSize (fst g) = w'"
    "PreviousWindowSize (stats (snd g)) = PreviousWindowSize (stats a)"
    "PreviousWindowSize (fst g) = 60"
    "rateBuckets (snd g) = rateBuckets a"
    using aw unfolding g_def generateStats_def Let_def
    by (simp_all add: cloneStats_def NewLogStats_def GetStats_def case_prod_beta)
qed

text \<open>
  The part of claim C1 that the code meets: on every tick the new window size is the
  one prescribed, a surge alert naming it is sent exactly in the first case, and
  \<open>SetDuration\<close> is called with it exactly when it differs from the old size.
\<close>

lemma window_adaptation_rule:
  fixes c a
  defines "r \<equiv> calculateRate (atCalc c) 10 a"
  defines "w \<equiv> WindowSize (stats a)"
  defines "g \<equiv> generateStats c a"
  shows "WindowSize (stats (snd g)) = spec_window_size r w \<and>
         WindowSize (fst g) = spec_window_size r w \<and>
         (\<exists>later. alertChan (snd g) =
            alertChan a @
            (if r > 2500 \<and> w > 30
             then [\<lparr>AlertTimestamp = atSurge c,
                    AlertMessage = WindowAdjusted (spec_window_size r w)\<rparr>]
             else []) @ later \<and>
            list_all (\<lambda>x. \<exists>rate. AlertMessage x = HighErrorRate rate) later) \<and>
         window (snd g) =
           (if spec_window_size r w \<noteq> w
            then SetDuration (atSetDur c) (spec_window_size r w) (window a) else window a)"
proof -
  let ?a = "a\<lparr>muxTrace := muxTrace a @ [MuxLock]\<rparr>"
  let ?surge = "if r > 2500 \<and> w > 30
     then [\<lparr>AlertTimestamp = atSurge c, AlertMessage = WindowAdjusted (spec_window_size r w)\<rparr>]
     else []"
  have al: "alertChan (snd (adjustWindow c ?a)) = alertChan a @ ?surge"
    and wi: "window (snd (adjustWindow c ?a)) =
       (if spec_window_size r w \<noteq> w
        then SetDuration (atSetDur c) (spec_window_size r w) (window a) else window a)"
    using adjustWindow_eq(4,5)[of c ?a] by (simp_all add: r_def w_def)
  have "\<exists>later. alertChan (snd g) = alertChan (snd (adjustWindow c ?a)) @ later \<and>
      list_all (\<lambda>x. \<exists>rate. AlertMessage x = HighErrorRate rate) later"
    unfolding g_def generateStats_def Let_def by (simp add: case_prod_beta)
  then have alerts: "\<exists>later. alertChan (snd g) = alertChan a @ ?surge @ later \<and>
      list_all (\<lambda>x. \<exists>rate. AlertMessage x = HighErrorRate rate) later"
    unfolding al by simp
  have g_win: "window (snd g) = window (snd (adjustWindow c ?a))"
    unfolding g_def generateStats_def Let_def by (simp add: case_prod_beta)
  have sz: "WindowSize (stats (snd g)) = spec_window_size r w"
    "WindowSize (fst g) = spec_window_size r w"
    using generateStats_eq(1,2)[of c a] by (simp_all add: r_def w_def g_def)
  from sz alerts g_win wi show ?thesis by simp
qed

lemma rate_surgeAnalyzer:
  "rateBuckets a = rateBuckets surgeAnalyzer \<Longrightarrow> calculateRate Second 10 a = 3000"
  "rateBuckets a = rateBuckets surgeAnalyzer \<Longrightarrow> calculateRate (2 * Second) 10 a = 3000"
  by (simp_all add: calculateRate_def surgeAnalyzer_def updateRateBucket_def NewAnalyzer_def
      Second_def Let_def)

text \<open>
  Claim C1: the code does not meet it. Nothing in \<open>generateStats\<close> assigns
  \<open>PreviousWindowSize\<close>, and \<open>cloneStats\<close> does not copy it. The analyzer below runs at
  3000 entries per second. The first tick shrinks the window from 60 to 50, the second
  from 50 to 40: after it the previous size should be 50, and it is 60, the initial
  value, in the analyzer's statistics and in the snapshot.
\<close>

theorem previous_window_size_not_assigned:
  "WindowSize (stats (snd (generateStats (tickAt Second) surgeAnalyzer))) = 50 \<and>
   WindowSize (stats (snd (generateStats (tickAt (2 * Second))
     (snd (generateStats (tickAt Second) surgeAnalyzer))))) = 40 \<and>
   PreviousWindowSize (stats (snd (generateStats (tickAt (2 * Second))
     (snd (generateStats (tickAt Second) surgeAnalyzer))))) = 60 \<and>
   PreviousWindowSize (fst (generateStats (tickAt (2 * Second))
     (snd (generateStats (tickAt Second) surgeAnalyzer)))) = 60"
proof -
  let ?a1 = "snd (generateStats (tickAt Second) surgeAnalyzer)"
  have w0: "WindowSize (stats surgeAnalyzer) = 60" "PreviousWindowSize (stats surgeAnalyzer) = 60"
    by (simp_all add: surgeAnalyzer_def updateRateBucket_def NewAnalyzer_def NewLogStats_def Let_def)
  have t: "atCalc (tickAt Second) = 1 * Second" "atCalc (tickAt (2 * Second)) = 2 * Second"
    by (simp_all add: tickAt_def)
  have 1: "WindowSize (stats ?a1) = 50" "PreviousWindowSize (stats ?a1) = 60"
    "rateBuckets ?a1 = rateBuckets surgeAnalyzer"
    by (simp_all add: generateStats_eq t rate_surgeAnalyzer w0 spec_window_size_def)
  have 2: "WindowSize (stats (snd (generateStats (tickAt (2 * Second)) ?a1))) = 40"
    "PreviousWindowSize (stats (snd (generateStats (tickAt (2 * Second)) ?a1))) = 60"
    "PreviousWindowSize (fst (generateStats (tickAt (2 * Second)) ?a1)) = 60"
    by (simp_all add: generateStats_eq t rate_surgeAnalyzer 1 w0 spec_window_size_def)
  from 1 2 show ?thesis by simp
qed

text \<open>
  Claim C9, as stated, fails: \<open>calculateRate\<close> evicts nothing, the eviction is done by
  \<open>updateRateBucket\<close> when a bucket is committed. The analyzer below committed the bucket
  of second 0 at second 1 and received nothing since. At second 200 that bucket is
  older than 120 seconds: the specified operation evicts it and returns \<open>0\<close> for the
  last 300 seconds, the code counts it and returns \<open>5\<close>; and the bucket is still stored
  after the tick of second 200 has read the rate.
\<close>

theorem calculate_rate_counterexample:
  "calculateRate (200 * Second) 300 staleAnalyzer = 5 \<and>
   spec_calculate_rate (200 * Second) 300 (rateBuckets staleAnalyzer) = 0 \<and>
   rateBuckets (snd (generateStats (tickAt (200 * Second)) staleAnalyzer)) =
     [\<lparr>BucketCount = 5, BucketTimestamp = 0\<rparr>]"
  by (simp add: generateStats_eq)
     (simp add: staleAnalyzer_def updateRateBucket_def NewAnalyzer_def calculateRate_def
      spec_calculate_rate_def Second_def Let_def)

text \<open>
  Claim C9, amended. \<open>calculateRate\<close> returns the sum of the counts of all stored
  buckets with \<open>timestamp > now - seconds\<close> divided by their number, and \<open>0\<close> when there
  is none. For \<open>seconds \<le> 120\<close> this is the value the specification describes (evict
  the buckets with \<open>timestamp \<le> now - 120 s\<close>, then read). The eviction itself happens
  in \<open>updateRateBucket\<close>: after it every stored bucket has \<open>timestamp > now - 120 s\<close>.
\<close>

theorem calculate_rate_amended:
  "calculateRate now seconds a =
     (let relevant = filter (\<lambda>b. BucketTimestamp b > now - seconds * Second) (rateBuckets a)
      in if relevant = [] then 0
         else real_of_int (sum_list (map BucketCount relevant)) / real (length relevant)) \<and>
   (seconds \<le> 120 \<longrightarrow>
      calculateRate now seconds a = spec_calculate_rate now seconds (rateBuckets a)) \<and>
   (\<forall>b\<in>set (rateBuckets (updateRateBucket now ts n a)).
      BucketTimestamp b > now - 120 * Second)"
  using spec_rate_le_120[of seconds now a] calculateRate_eq[of now seconds a]
  by (auto simp: updateRateBucket_def Let_def)

theorem calculate_rate_amended_witness:
  "(10::int) \<le> 120 \<and>
   calculateRate (5 * Second) 10 staleAnalyzer = 5 \<and>
   spec_calculate_rate (5 * Second) 10 (rateBuckets staleAnalyzer) = 5 \<and>
   list_all (\<lambda>b. BucketTimestamp b > 1 * Second - 120 * Second)
     (rateBuckets (updateRateBucket (1 * Second) 0 5 (NewAnalyzer 0 10000)))"
  using calculate_rate_amended[where now = "5 * Second" and seconds = 10 and a = staleAnalyzer
      and ts = 0 and n = 5]
  by (simp add: staleAnalyzer_def updateRateBucket_def NewAnalyzer_def calculateRate_def
      spec_calculate_rate_def Second_def Let_def)

subsection \<open>The ingestion loop\<close>

lemma updateRateBucket_fields [simp]:
  "window (updateRateBucket t ts n a) = window a"
  "patternTracker (updateRateBucket t ts n a) = patternTracker a"
  "stats (updateRateBucket t ts n a) = stats a"
  "skippedEntries (updateRateBucket t ts n a) = skippedEntries a"
  "bufferSize (updateRateBucket t ts n a) = bufferSize a"
  "bufferResized (updateRateBucket t ts n a) = bufferResized a"
  "buggyConcurrency (updateRateBucket t ts n a) = buggyConcurrency a"
  "alertChan (updateRateBucket t ts n a) = alertChan a"
  by (simp_all add: updateRateBucket_def Let_def)

lemma processEntry_invalid:
  assumes "\<not> IsValid entry"
  shows "skippedEntries (analyzer (processEntry c entry s)) = skippedEntries (analyzer s) + 1"
    "window (analyzer (processEntry c entry s)) = window (analyzer s)"
    "patternTracker (analyzer (processEntry c entry s)) = patternTracker (analyzer s)"
    "stats (analyzer (processEntry c entry s)) = stats (analyzer s)"
    "bufferSize (analyzer (processEntry c entry s)) = bufferSize (analyzer s)"
    "bufferResized (analyzer (processEntry c entry s)) = bufferResized (analyzer s)"
    "alertChan (analyzer (processEntry c entry s)) = alertChan (analyzer s)"
  using assms by (simp_all add: processEntry_def Let_def)

lemma processEntry_valid:
  assumes "IsValid entry"
  shows "skippedEntries (analyzer (processEntry c entry s)) = skippedEntries (analyzer s)"
    "EntriesProcessed (stats (analyzer (processEntry c entry s))) =
       EntriesProcessed (stats (analyzer s)) + 1"
    "window (analyzer (processEntry c entry s)) = Add (atAdd c) entry (window (analyzer s))"
    "patternTracker (analyzer (processEntry c entry s)) =
       UpdatePattern (atNew c) (atUpd c) (atRate c) entry
         (Add (atAdd c) entry (window (analyzer s))) (patternTracker (analyzer s))"
  using assms by (simp_all add: processEntry_def Let_def)

lemma processLogs_append: "processLogs (xs @ ys) s = processLogs ys (processLogs xs s)"
  by (induction xs s rule: processLogs.induct) simp_all

lemma processLogs_counts:
  "skippedEntries (analyzer (processLogs steps s)) =
     skippedEntries (analyzer s) + int (length (filter (\<lambda>(c, e). \<not> IsValid e) steps)) \<and>
   EntriesProcessed (stats (analyzer (processLogs steps s))) =
     EntriesProcessed (stats (analyzer s)) + int (length (filter (\<lambda>(c, e). IsValid e) steps))"
proof (induction steps s rule: processLogs.induct)
  case (1 s)
  then show ?case by simp
next
  case (2 c entry rest s)
  then show ?case
    by (cases "IsValid entry") (simp_all add: processEntry_invalid processEntry_valid)
qed

lemma processLogs_window_valid_only:
  "window (analyzer s) = window (analyzer s') \<Longrightarrow>
   patternTracker (analyzer s) = patternTracker (analyzer s') \<Longrightarrow>
   window (analyzer (processLogs steps s)) =
     window (analyzer (processLogs (filter (\<lambda>(c, e). IsValid e) steps) s')) \<and>
   patternTracker (analyzer (processLogs steps s)) =
     patternTracker (analyzer (processLogs (filter (\<lambda>(c, e). IsValid e) steps) s'))"
proof (induction steps s arbitrary: s' rule: processLogs.induct)
  case (1 s)
  then show ?case by simp
next
  case (2 c entry rest s)
  show ?case
  proof (cases "IsValid entry")
    case True
    have "window (analyzer (processEntry c entry s)) =
            window (analyzer (processEntry c entry s'))"
      "patternTracker (analyzer (processEntry c entry s)) =
         patternTracker (analyzer (processEntry c entry s'))"
      using True "2.prems" by (simp_all add: processEntry_valid)
    from "2.IH"[OF this] True show ?thesis by simp
  next
    case False
    have "window (analyzer (processEntry c entry s)) = window (analyzer s')"
      "patternTracker (analyzer (processEntry c entry s)) = patternTracker (analyzer s')"
      using False "2.prems" by (simp_all add: processEntry_invalid)
    from "2.IH"[OF this] False show ?thesis by simp
  qed
qed

text \<open>
  Claim C10. An entry with \<open>IsValid = false\<close> adds one to \<open>skippedEntries\<close> and leaves the
  window, the pattern tracker and \<open>EntriesProcessed\<close> as they are. Over any sequence of
  entries, \<open>skippedEntries\<close> grows by the number of invalid entries and
  \<open>EntriesProcessed\<close> by the number of valid ones, and the window and the tracker end as
  if the invalid entries had not been there.
\<close>

theorem invalid_entries_skipped:
  "(\<not> IsValid entry \<longrightarrow>
      skippedEntries (analyzer (processEntry c entry s)) = skippedEntries (analyzer s) + 1 \<and>
      window (analyzer (processEntry c entry s)) = window (analyzer s) \<and>
      patternTracker (analyzer (processEntry c entry s)) = patternTracker (analyzer s) \<and>
      EntriesProcessed (stats (analyzer (processEntry c entry s))) =
        EntriesProcessed (stats (analyzer s))) \<and>
   skippedEntries (analyzer (processLogs steps s)) =
     skippedEntries (analyzer s) + int (length (filter (\<lambda>(c, e). \<not> IsValid e) steps)) \<and>
   EntriesProcessed (stats (analyzer (processLogs steps s))) =
     EntriesProcessed (stats (analyzer s)) + int (length (filter (\<lambda>(c, e). IsValid e) steps)) \<and>
   window (analyzer (processLogs steps s)) =
     window (analyzer (processLogs (filter (\<lambda>(c, e). IsValid e) steps) s)) \<and>
   patternTracker (analyzer (processLogs steps s)) =
     patternTracker (analyzer (processLogs (filter (\<lambda>(c, e). IsValid e) steps) s))"
  using processLogs_counts[of steps s] processLogs_window_valid_only[of s s steps]
  by (simp add: processEntry_invalid)

theorem invalid_entries_skipped_witness:
  "\<not> IsValid malformed \<and>
   skippedEntries (analyzer (processEntry clock0 malformed (startIngest 0 (NewAnalyzer 0 10000)))) = 1 \<and>
   length (filter (\<lambda>(c, e). IsValid e) mixedSteps) = 100 \<and>
   length (filter (\<lambda>(c, e). \<not> IsValid e) mixedSteps) = 5 \<and>
   skippedEntries (analyzer (processLogs mixedSteps (startIngest 0 (NewAnalyzer 0 10000)))) = 5 \<and>
   EntriesProcessed (stats (analyzer (processLogs mixedSteps (startIngest 0 (NewAnalyzer 0 10000))))) = 100"
  using invalid_entries_skipped[of malformed clock0 "startIngest 0 (NewAnalyzer 0 10000)" mixedSteps]
  by (simp add: mixedSteps_def malformed_def infoEntry_def startIngest_def NewAnalyzer_def
      NewLogStats_def)

subsection \<open>Burst detection\<close>

lemma burst_test:
  assumes "0 < n"
  shows "n > goInt (real_of_int b * 0.8) \<longleftrightarrow> real_of_int n > 0.8 * real_of_int b"
proof -
  define x where "x = real_of_int b * 0.8"
  have "n > goInt x \<longleftrightarrow> real_of_int n > x"
  proof (cases "0 \<le> x")
    case True
    then show ?thesis by (simp add: goInt_def floor_less_iff)
  next
    case False
    then have "\<lceil>x\<rceil> \<le> 0" by (simp add: ceiling_le_iff)
    with assms have "\<lceil>x\<rceil> < n" by linarith
    moreover have "x < real_of_int n" using False assms by linarith
    ultimately show ?thesis using False by (simp add: goInt_def)
  qed
  then show ?thesis by (simp add: x_def mult.commute)
qed

lemma processEntry_secondCount:
  "secondCount (processEntry c entry s) =
     (if Truncate (atRecv c) Second \<noteq> secondBucket s then 0 else secondCount s) + 1"
  "secondBucket (processEntry c entry s) = Truncate (atRecv c) Second"
  by (simp_all add: processEntry_def Let_def)

lemma processEntry_burst:
  fixes c entry s
  defines "n \<equiv> (if Truncate (atRecv c) Second \<noteq> secondBucket s then 0 else secondCount s) + 1"
  defines "a \<equiv> analyzer s"
  defines "a' \<equiv> analyzer (processEntry c entry s)"
  assumes "IsValid entry"
  shows "n > goInt (real_of_int (bufferSize a) * 0.8) \<Longrightarrow>
           bufferSize a' = goInt (real_of_int (bufferSize a) * 1.5) \<and> bufferResized a' \<and>
           alertChan a' = alertChan a @
             [\<lparr>AlertTimestamp = atRecv c,
               AlertMessage = BurstDetected n (goInt (real_of_int (bufferSize a) * 1.5))\<rparr>]"
    and "\<not> n > goInt (real_of_int (bufferSize a) * 0.8) \<Longrightarrow>
           bufferSize a' = bufferSize a \<and> bufferResized a' = bufferResized a \<and>
           alertChan a' = alertChan a"
  using assms(4) unfolding n_def a_def a'_def
  by (auto simp: processEntry_def Let_def)

lemma quiet_run:
  "list_all (\<lambda>(c, e). IsValid e \<and> Truncate (atRecv c) Second = secondBucket s) steps \<Longrightarrow>
   0 \<le> secondCount s \<Longrightarrow>
   secondCount s + int (length steps) \<le> goInt (real_of_int (bufferSize (analyzer s)) * 0.8) \<Longrightarrow>
   alertChan (analyzer (processLogs steps s)) = alertChan (analyzer s) \<and>
   bufferSize (analyzer (processLogs steps s)) = bufferSize (analyzer s) \<and>
   secondCount (processLogs steps s) = secondCount s + int (length steps) \<and>
   secondBucket (processLogs steps s) = secondBucket s"
proof (induction steps s rule: processLogs.induct)
  case (1 s)
  then show ?case by simp
next
  case (2 c entry rest s)
  let ?s = "processEntry c entry s"
  from "2.prems"(1) have v: "IsValid entry" and b: "Truncate (atRecv c) Second = secondBucket s"
    and rest: "list_all (\<lambda>(c, e). IsValid e \<and> Truncate (atRecv c) Second = secondBucket s) rest"
    by simp_all
  have sc: "secondCount ?s = secondCount s + 1" and sb: "secondBucket ?s = secondBucket s"
    using b by (simp_all add: processEntry_secondCount)
  have "\<not> (if Truncate (atRecv c) Second \<noteq> secondBucket s then 0 else secondCount s) + 1
          > goInt (real_of_int (bufferSize (analyzer s)) * 0.8)"
    using b "2.prems"(3) by simp
  from processEntry_burst(2)[OF v this]
  have q: "bufferSize (analyzer ?s) = bufferSize (analyzer s)"
    "alertChan (analyzer ?s) = alertChan (analyzer s)" by simp_all
  have "alertChan (analyzer (processLogs rest ?s)) = alertChan (analyzer ?s) \<and>
        bufferSize (analyzer (processLogs rest ?s)) = bufferSize (analyzer ?s) \<and>
        secondCount (processLogs rest ?s) = secondCount ?s + int (length rest) \<and>
        secondBucket (processLogs rest ?s) = secondBucket ?s"
    using rest "2.prems"(2,3) by (intro "2.IH") (simp_all add: sc sb q)
  then show ?case by (simp add: sc sb q)
qed

lemma burst_at_401:
  assumes all: "list_all (\<lambda>(c, e). IsValid e \<and> Truncate (atRecv c) Second = secondBucket s)
                  (steps @ [(c, entry)])"
    and z: "secondCount s = 0" and b: "bufferSize (analyzer s) = 500" and l: "length steps = 400"
  shows "alertChan (analyzer (processLogs (steps @ [(c, entry)]) s)) =
           alertChan (analyzer s) @
             [\<lparr>AlertTimestamp = atRecv c, AlertMessage = BurstDetected 401 750\<rparr>] \<and>
         bufferSize (analyzer (processLogs (steps @ [(c, entry)]) s)) = 750 \<and>
         secondCount (processLogs (steps @ [(c, entry)]) s) = 401 \<and>
         secondBucket (processLogs (steps @ [(c, entry)]) s) = secondBucket s"
proof -
  let ?s = "processLogs steps s"
  have q: "alertChan (analyzer ?s) = alertChan (analyzer s) \<and>
     bufferSize (analyzer ?s) = bufferSize (analyzer s) \<and>
     secondCount ?s = secondCount s + int (length steps) \<and> secondBucket ?s = secondBucket s"
    using all z b l by (intro quiet_run) (simp_all add: goInt_def)
  have v: "IsValid entry" and sb: "Truncate (atRecv c) Second = secondBucket ?s"
    using all q by simp_all
  have "(if Truncate (atRecv c) Second \<noteq> secondBucket ?s then 0 else secondCount ?s) + 1
          > goInt (real_of_int (bufferSize (analyzer ?s)) * 0.8)"
    using sb q z b l by (simp add: goInt_def)
  from processEntry_burst(1)[OF v this] show ?thesis
    using sb q z b l by (simp add: processLogs_append processEntry_secondCount goInt_def)
qed

text \<open>
  Claim C2, as stated, fails in its example: with \<open>buffer_size = 500\<close>, 450 entries in
  one wall-second do produce a burst alert. The count exceeds \<open>0.8 \<cdot> 500 = 400\<close> at the
  401st entry, which resizes the buffer to 750; the 49 entries that follow stay below
  \<open>0.8 \<cdot> 750 = 600\<close>.
\<close>

theorem burst_counterexample:
  "alertChan (analyzer (processLogs (replicate 450 (clock0, infoEntry))
      (startIngest 0 (NewAnalyzer 0 500)))) =
     [\<lparr>AlertTimestamp = 0, AlertMessage = BurstDetected 401 750\<rparr>]"
proof -
  let ?s0 = "startIngest 0 (NewAnalyzer 0 500)"
  let ?a = "replicate 400 (clock0, infoEntry)"
  let ?s1 = "processLogs (?a @ [(clock0, infoEntry)]) ?s0"
  have s0: "secondCount ?s0 = 0" "bufferSize (analyzer ?s0) = 500" "secondBucket ?s0 = 0"
    "alertChan (analyzer ?s0) = []"
    by (simp_all add: startIngest_def NewAnalyzer_def Truncate_def)
  have t: "Truncate (atRecv clock0) Second = 0" by (simp add: clock0_def Truncate_def)
  have v: "IsValid infoEntry" by (simp add: infoEntry_def)
  have 1: "alertChan (analyzer ?s1) =
             [\<lparr>AlertTimestamp = 0, AlertMessage = BurstDetected 401 750\<rparr>] \<and>
         bufferSize (analyzer ?s1) = 750 \<and> secondCount ?s1 = 401 \<and> secondBucket ?s1 = 0"
    using burst_at_401[of ?s0 ?a clock0 infoEntry] s0 t v
    by (simp add: list_all_iff clock0_def)
  have 2: "alertChan (analyzer (processLogs (replicate 49 (clock0, infoEntry)) ?s1)) =
        alertChan (analyzer ?s1)"
    using quiet_run[of ?s1 "replicate 49 (clock0, infoEntry)"] 1 t v
    by (simp add: list_all_iff goInt_def)
  have "replicate 450 (clock0, infoEntry) =
        (?a @ [(clock0, infoEntry)]) @ replicate 49 (clock0, infoEntry)"
  proof -
    have "(450::nat) = 400 + 1 + 49" by simp
    then have "replicate 450 (clock0, infoEntry) =
        replicate 400 (clock0, infoEntry) @ replicate 1 (clock0, infoEntry) @
        replicate 49 (clock0, infoEntry)"
      by (simp only: replicate_add append_assoc)
    then show ?thesis by simp
  qed
  then show ?thesis using 1 2 by (simp only: processLogs_append)
qed

text \<open>
  Claim C2, amended. \<open>n\<close> is the running per-second count of the step, \<open>a\<close> the
  analyzer before it and \<open>a'\<close> after it. For a valid entry with \<open>n > 0.8 \<cdot> buffer_size\<close>
  the buffer size becomes \<open>buffer_size \<cdot> 1.5\<close> truncated toward zero (its floor, for a
  size that is not negative), \<open>bufferResized\<close> is set, and a burst alert with \<open>n\<close> and the
  new size is sent. In every other case, also for an invalid entry whatever the count,
  the three are unchanged. With \<open>buffer_size = 500\<close>, up to 400 valid entries in one
  wall-second send no alert, and the 401st sends the burst alert with the new size 750.
\<close>

theorem burst_detection_amended:
  fixes c entry s steps c1 e1 s0
  defines "n \<equiv> (if Truncate (atRecv c) Second \<noteq> secondBucket s then 0 else secondCount s) + 1"
  defines "a \<equiv> analyzer s"
  defines "a' \<equiv> analyzer (processEntry c entry s)"
  defines "sameSecond \<equiv> list_all (\<lambda>(c, e). IsValid e \<and> Truncate (atRecv c) Second = secondBucket s0)"
  assumes "0 \<le> secondCount s"
  shows "secondCount (processEntry c entry s) = n \<and>
    (IsValid entry \<and> real_of_int n > 0.8 * real_of_int (bufferSize a) \<longrightarrow>
       bufferSize a' = goInt (real_of_int (bufferSize a) * 1.5) \<and>
       (0 \<le> bufferSize a \<longrightarrow> bufferSize a' = \<lfloor>real_of_int (bufferSize a) * 1.5\<rfloor>) \<and>
       bufferResized a' \<and>
       alertChan a' = alertChan a @
         [\<lparr>AlertTimestamp = atRecv c, AlertMessage = BurstDetected n (bufferSize a')\<rparr>]) \<and>
    (\<not> (IsValid entry \<and> real_of_int n > 0.8 * real_of_int (bufferSize a)) \<longrightarrow>
       bufferSize a' = bufferSize a \<and> bufferResized a' = bufferResized a \<and>
       alertChan a' = alertChan a) \<and>
    (sameSecond steps \<and> secondCount s0 = 0 \<and> bufferSize (analyzer s0) = 500 \<and>
     length steps \<le> 400 \<longrightarrow>
       alertChan (analyzer (processLogs steps s0)) = alertChan (analyzer s0) \<and>
       bufferSize (analyzer (processLogs steps s0)) = 500) \<and>
    (sameSecond (steps @ [(c1, e1)]) \<and> secondCount s0 = 0 \<and> bufferSize (analyzer s0) = 500 \<and>
     length steps = 400 \<longrightarrow>
       alertChan (analyzer (processLogs (steps @ [(c1, e1)]) s0)) =
         alertChan (analyzer s0) @
           [\<lparr>AlertTimestamp = atRecv c1, AlertMessage = BurstDetected 401 750\<rparr>] \<and>
       bufferSize (analyzer (processLogs (steps @ [(c1, e1)]) s0)) = 750)"
proof -
  have pos: "0 < n" using assms(5) by (simp add: n_def)
  note test = burst_test[OF pos, of "bufferSize a"]
  have sc: "secondCount (processEntry c entry s) = n"
    by (simp add: processEntry_secondCount n_def)
  have yes: "IsValid entry \<and> real_of_int n > 0.8 * real_of_int (bufferSize a) \<longrightarrow>
       bufferSize a' = goInt (real_of_int (bufferSize a) * 1.5) \<and>
       (0 \<le> bufferSize a \<longrightarrow> bufferSize a' = \<lfloor>real_of_int (bufferSize a) * 1.5\<rfloor>) \<and>
       bufferResized a' \<and>
       alertChan a' = alertChan a @
         [\<lparr>AlertTimestamp = atRecv c, AlertMessage = BurstDetected n (bufferSize a')\<rparr>]"
  proof
    assume h: "IsValid entry \<and> real_of_int n > 0.8 * real_of_int (bufferSize a)"
    then have "n > goInt (real_of_int (bufferSize a) * 0.8)" using test by simp
    from processEntry_burst(1)[OF conjunct1[OF h], where c = c and s = s] this
    have r: "bufferSize a' = goInt (real_of_int (bufferSize a) * 1.5)" "bufferResized a'"
      "alertChan a' = alertChan a @
         [\<lparr>AlertTimestamp = atRecv c,
           AlertMessage = BurstDetected n (goInt (real_of_int (bufferSize a) * 1.5))\<rparr>]"
      by (simp_all add: n_def a_def a'_def)
    have "0 \<le> bufferSize a \<longrightarrow> goInt (real_of_int (bufferSize a) * 1.5) =
            \<lfloor>real_of_int (bufferSize a) * 1.5\<rfloor>"
      by (simp add: goInt_def)
    with r show "bufferSize a' = goInt (real_of_int (bufferSize a) * 1.5) \<and>
       (0 \<le> bufferSize a \<longrightarrow> bufferSize a' = \<lfloor>real_of_int (bufferSize a) * 1.5\<rfloor>) \<and>
       bufferResized a' \<and>
       alertChan a' = alertChan a @
         [\<lparr>AlertTimestamp = atRecv c, AlertMessage = BurstDetected n (bufferSize a')\<rparr>]"
      by simp
  qed
  have no: "\<not> (IsValid entry \<and> real_of_int n > 0.8 * real_of_int (bufferSize a)) \<longrightarrow>
       bufferSize a' = bufferSize a \<and> bufferResized a' = bufferResized a \<and>
       alertChan a' = alertChan a"
  proof (cases "IsValid entry")
    case True
    show ?thesis
    proof
      assume "\<not> (IsValid entry \<and> real_of_int n > 0.8 * real_of_int (bufferSize a))"
      with True have "\<not> n > goInt (real_of_int (bufferSize a) * 0.8)" using test by simp
      from processEntry_burst(2)[OF True, where c = c and s = s] this
      show "bufferSize a' = bufferSize a \<and> bufferResized a' = bufferResized a \<and>
            alertChan a' = alertChan a"
        by (simp add: n_def a_def a'_def)
    qed
  next
    case False
    then show ?thesis by (simp add: a_def a'_def processEntry_invalid)
  qed
  have quiet: "sameSecond steps \<and> secondCount s0 = 0 \<and> bufferSize (analyzer s0) = 500 \<and>
     length steps \<le> 400 \<longrightarrow>
       alertChan (analyzer (processLogs steps s0)) = alertChan (analyzer s0) \<and>
       bufferSize (analyzer (processLogs steps s0)) = 500"
  proof
    assume h: "sameSecond steps \<and> secondCount s0 = 0 \<and> bufferSize (analyzer s0) = 500 \<and>
     length steps \<le> 400"
    then have "alertChan (analyzer (processLogs steps s0)) = alertChan (analyzer s0) \<and>
      bufferSize (analyzer (processLogs steps s0)) = bufferSize (analyzer s0) \<and>
      secondCount (processLogs steps s0) = secondCount s0 + int (length steps) \<and>
      secondBucket (processLogs steps s0) = secondBucket s0"
      unfolding sameSecond_def by (intro quiet_run) (simp_all add: goInt_def)
    with h show "alertChan (analyzer (processLogs steps s0)) = alertChan (analyzer s0) \<and>
       bufferSize (analyzer (processLogs steps s0)) = 500" by simp
  qed
  have burst: "sameSecond (steps @ [(c1, e1)]) \<and> secondCount s0 = 0 \<and>
     bufferSize (analyzer s0) = 500 \<and> length steps = 400 \<longrightarrow>
       alertChan (analyzer (processLogs (steps @ [(c1, e1)]) s0)) =
         alertChan (analyzer s0) @
           [\<lparr>AlertTimestamp = atRecv c1, AlertMessage = BurstDetected 401 750\<rparr>] \<and>
       bufferSize (analyzer (processLogs (steps @ [(c1, e1)]) s0)) = 750"
    unfolding sameSecond_def using burst_at_401[of s0 steps c1 e1] by blast
  from sc yes no quiet burst show ?thesis by blast
qed

theorem burst_detection_amended_witness:
  "0 \<le> secondCount (startIngest 0 (NewAnalyzer 0 500)\<lparr>secondCount := 400\<rparr>) \<and>
   IsValid infoEntry \<and> real_of_int 401 > 0.8 * real_of_int 500 \<and>
   bufferSize (analyzer (processEntry clock0 infoEntry
      (startIngest 0 (NewAnalyzer 0 500)\<lparr>secondCount := 400\<rparr>))) = 750 \<and>
   alertChan (analyzer (processEntry clock0 infoEntry
      (startIngest 0 (NewAnalyzer 0 500)\<lparr>secondCount := 400\<rparr>))) =
     [\<lparr>AlertTimestamp = 0, AlertMessage = BurstDetected 401 750\<rparr>] \<and>
   \<not> IsValid malformed \<and>
   alertChan (analyzer (processEntry clock0 malformed
      (startIngest 0 (NewAnalyzer 0 500)\<lparr>secondCount := 400\<rparr>))) = [] \<and>
   list_all (\<lambda>(c, e). IsValid e \<and>
       Truncate (atRecv c) Second = secondBucket (startIngest 0 (NewAnalyzer 0 500)))
     (replicate 400 (clock0, infoEntry) @ [(clock0, infoEntry)]) \<and>
   alertChan (analyzer (processLogs (replicate 400 (clock0, infoEntry))
      (startIngest 0 (NewAnalyzer 0 500)))) = [] \<and>
   alertChan (analyzer (processLogs (replicate 400 (clock0, infoEntry) @ [(clock0, infoEntry)])
      (startIngest 0 (NewAnalyzer 0 500)))) =
     [\<lparr>AlertTimestamp = 0, AlertMessage = BurstDetected 401 750\<rparr>]"
proof -
  let ?init = "startIngest 0 (NewAnalyzer 0 500)"
  let ?full = "?init\<lparr>secondCount := 400\<rparr>"
  have f: "secondCount ?full = 400" "secondBucket ?full = 0" "bufferSize (analyzer ?full) = 500"
    "alertChan (analyzer ?full) = []" "secondCount ?init = 0" "secondBucket ?init = 0"
    "bufferSize (analyzer ?init) = 500" "alertChan (analyzer ?init) = []"
    "Truncate (atRecv clock0) Second = 0" "atRecv clock0 = 0"
    "IsValid infoEntry" "\<not> IsValid malformed"
    by (simp_all add: startIngest_def NewAnalyzer_def Truncate_def clock0_def infoEntry_def
        malformed_def)
  have g: "goInt (real_of_int 500 * 1.5) = 750" by (simp add: goInt_def)
  have l: "list_all (\<lambda>(c, e). IsValid e \<and> Truncate (atRecv c) Second = secondBucket ?init)
     (replicate 400 (clock0, infoEntry) @ [(clock0, infoEntry)])"
    "list_all (\<lambda>(c, e). IsValid e \<and> Truncate (atRecv c) Second = secondBucket ?init)
     (replicate 400 (clock0, infoEntry))"
    using f by (simp_all add: list_all_iff)
  show ?thesis
    using burst_detection_amended[where c = clock0 and entry = infoEntry and s = ?full
        and steps = "replicate 400 (clock0, infoEntry)" and ?c1.0 = clock0 and ?e1.0 = infoEntry
        and ?s0.0 = ?init]
      burst_detection_amended[where c = clock0 and entry = malformed and s = ?full
        and steps = "[]" and ?c1.0 = clock0 and ?e1.0 = infoEntry and ?s0.0 = ?init]
      l
    by (simp add: f g)
qed

subsection \<open>The mutex and the counter of processed entries\<close>

text \<open>
  Claim C3: the code does not meet it. For a valid \<open>ERROR\<close> entry, with the flag
  \<open>buggyConcurrency\<close> that \<open>NewAnalyzer\<close> sets, \<open>EntriesProcessed\<close> is incremented with
  no \<open>Lock\<close> before it; for an \<open>INFO\<close> entry the increment is between \<open>Lock\<close> and
  \<open>Unlock\<close>. In a run of the loop alone the counter still advances by one for each.
\<close>

theorem entries_processed_unguarded_for_error:
  "muxTrace (analyzer (processEntry clock0 (errorX 0) (startIngest 0 (NewAnalyzer 0 10000)))) =
     [IncEntriesProcessed] \<and>
   \<not> guarded False
       (muxTrace (analyzer (processEntry clock0 (errorX 0) (startIngest 0 (NewAnalyzer 0 10000))))) \<and>
   EntriesProcessed (stats (analyzer
       (processEntry clock0 (errorX 0) (startIngest 0 (NewAnalyzer 0 10000))))) = 1 \<and>
   muxTrace (analyzer (processEntry clock0 infoEntry (startIngest 0 (NewAnalyzer 0 10000)))) =
     [MuxLock, IncEntriesProcessed, MuxUnlock] \<and>
   guarded False
       (muxTrace (analyzer (processEntry clock0 infoEntry (startIngest 0 (NewAnalyzer 0 10000))))) \<and>
   EntriesProcessed (stats (analyzer
       (processEntry clock0 infoEntry (startIngest 0 (NewAnalyzer 0 10000))))) = 1"
  by (simp add: processEntry_def startIngest_def NewAnalyzer_def NewLogStats_def Truncate_def
      clock0_def errorX_def infoEntry_def goInt_def Let_def)

end
